theory Spec2Isabelle
  imports Main
begin

section \<open>JavaScript values\<close>

text \<open>
  The property database hands out display values that are strings or numbers (and may be
  missing). Only integral numbers are modelled, of the size of element ids, where
  \<open>String(n)\<close> is the decimal numeral; \<open>NaN\<close> and fractions are left out.
\<close>

datatype jsval = Undefined | Null | Bool bool | Num int | Str string

datatype error = TypeError | HostError nat

text \<open>Truthiness, as tested by \<open>if (v)\<close>, \<open>v && ...\<close> and \<open>!v\<close>.\<close>

fun truthy :: "jsval \<Rightarrow> bool" where
  "truthy Undefined = False"
| "truthy Null = False"
| "truthy (Bool b) = b"
| "truthy (Num n) = (n \<noteq> 0)"
| "truthy (Str s) = (s \<noteq> [])"

definition digitChar :: "nat \<Rightarrow> char" where
  "digitChar d = ''0123456789'' ! d"

function showNat :: "nat \<Rightarrow> string" where
  "showNat n = (if n < 10 then [digitChar n] else showNat (n div 10) @ [digitChar (n mod 10)])"
  by pat_completeness auto
termination
  by (relation "measure (\<lambda>n. n)") auto

declare showNat.simps [simp del]

text \<open>\<open>String(v)\<close>: the conversion behind \<open>v.toString()\<close> and behind a property key.\<close>

fun jsToString :: "jsval \<Rightarrow> string" where
  "jsToString Undefined = ''undefined''"
| "jsToString Null = ''null''"
| "jsToString (Bool b) = (if b then ''true'' else ''false'')"
| "jsToString (Num n) = (if n < 0 then CHR ''-'' # showNat (nat (- n)) else showNat (nat n))"
| "jsToString (Str s) = s"

text \<open>
  \<open>toLowerCase\<close> on the ASCII letters. The marker names to be matched are \<open>mesh\<close> and
  \<open>body\<close>; no character outside ASCII lower-cases to one of their letters, so the
  comparison against them is decided by the ASCII part alone.
\<close>

definition toLowerChar :: "char \<Rightarrow> char" where
  "toLowerChar c =
     (case map_of (zip ''ABCDEFGHIJKLMNOPQRSTUVWXYZ'' ''abcdefghijklmnopqrstuvwxyz'') c of
        None \<Rightarrow> c
      | Some l \<Rightarrow> l)"

definition toLowerCase :: "string \<Rightarrow> string" where
  "toLowerCase s = map toLowerChar s"

text \<open>
  \<open>v?.toString().toLowerCase()\<close>: the optional chain yields \<open>undefined\<close> (here
  \<open>None\<close>) as a whole when \<open>v\<close> is \<open>undefined\<close> or \<open>null\<close>.
\<close>

fun optLower :: "jsval \<Rightarrow> string option" where
  "optLower Undefined = None"
| "optLower Null = None"
| "optLower v = Some (toLowerCase (jsToString v))"

text \<open>
  \<open>Array.from(new Set(a))\<close> and \<open>[...new Set(a)]\<close>: the first occurrence of every
  value is kept, in order.
\<close>

fun uniqInto :: "'a list \<Rightarrow> 'a list \<Rightarrow> 'a list" where
  "uniqInto seen [] = seen"
| "uniqInto seen (x # xs) = uniqInto (if x \<in> set seen then seen else seen @ [x]) xs"

definition uniq :: "'a list \<Rightarrow> 'a list" where
  "uniq a = uniqInto [] a"

section \<open>The host's scene objects\<close>

text \<open>
  The viewer runtime is not part of the sources. What the extension reads from it is a
  field of the records below: the answer the host gives to that call.
\<close>

record property =
  displayName :: string
  displayValue :: jsval

text \<open>One entry of a bulk property result.\<close>

record propResult =
  dbId :: int
  name :: "string option"
  properties :: "property list"

text \<open>
  \<open>enumNodeChildren t d recursive\<close> is the sequence of ids on which the host invokes the
  callback of \<open>tree.enumNodeChildren(d, cb, recursive)\<close>; no callback in the sources
  returns a value, so the enumeration always runs to its end. \<open>enumNodeFragments t d\<close> is
  the sequence of fragments offered to the callback of \<open>it.enumNodeFragments(d, cb)\<close>.
\<close>

record instanceTree =
  getRootId :: int
  getChildCount :: "int \<Rightarrow> nat"
  enumNodeChildren :: "int \<Rightarrow> bool \<Rightarrow> int list"
  enumNodeFragments :: "int \<Rightarrow> nat list"

record fragmentList =
  isNotLoaded :: "nat \<Rightarrow> bool"
  isFragVisible :: "nat \<Rightarrow> bool"

text \<open>
  \<open>getObjectTree\<close> reports the tree or an error. \<open>getBulkProperties\<close> reports the
  entries or an error; \<open>getBulkProperties2\<close> is only ever called with a success callback,
  so its failure is \<open>None\<close>: the callback is never invoked. \<open>getInstanceTree\<close> stands for
  both \<open>model.getInstanceTree()\<close> and \<open>model.getData().instanceTree\<close>.
\<close>

record model =
  modelId :: nat
  is3d :: bool
  getInstanceTree :: "instanceTree option"
  getFragmentList :: fragmentList
  getObjectTree :: "error + instanceTree"
  getBulkProperties :: "int list \<Rightarrow> error + propResult list"
  getBulkProperties2 :: "jsval list \<Rightarrow> string \<Rightarrow> propResult list option"

section \<open>BaseExtension: leaf resolution\<close>

record BaseExtension =
  cachedDbIds :: "jsval list option"
  geometryNames :: "string list"

text \<open>\<open>findLeafNodes\<close>: the nodes without children, in enumeration order.\<close>

definition findLeafNodes :: "model \<Rightarrow> error + int list" where
  "findLeafNodes m =
     (case getObjectTree m of
        Inl e \<Rightarrow> Inl e
      | Inr tree \<Rightarrow>
          Inr (filter (\<lambda>d. getChildCount tree d = 0)
                 (enumNodeChildren tree (getRootId tree) True)))"

text \<open>The slices \<open>allDbIds.slice(i, i + chunkSize)\<close> for \<open>i = 0, chunkSize, ...\<close>.\<close>

definition chunksOf :: "nat \<Rightarrow> 'a list \<Rightarrow> 'a list list" where
  "chunksOf chunkSize xs =
     map (\<lambda>k. take chunkSize (drop (k * chunkSize) xs))
       [0 ..< (length xs + chunkSize - 1) div chunkSize]"

text \<open>
  \<open>Promise.all\<close> over the chunk queries, then \<open>results.flat()\<close>. When several chunks
  fail, the error reported is the one of the first of them.
\<close>

fun queryChunks :: "model \<Rightarrow> int list list \<Rightarrow> error + propResult list" where
  "queryChunks m [] = Inr []"
| "queryChunks m (c # cs) =
     (case getBulkProperties m c of
        Inl e \<Rightarrow> Inl e
      | Inr props \<Rightarrow>
          (case queryChunks m cs of
             Inl e \<Rightarrow> Inl e
           | Inr rest \<Rightarrow> Inr (props @ rest)))"

text \<open>
  The body of the \<open>forEach\<close>: the id pushed for one entry. Reading \<open>displayValue\<close> of
  the result of \<open>find\<close> throws when no property is named \<open>parent\<close>.
\<close>

definition hasGeometryProperty :: "string list \<Rightarrow> propResult \<Rightarrow> bool" where
  "hasGeometryProperty names prop =
     list_ex (\<lambda>p. case optLower (displayValue p) of
                     None \<Rightarrow> False
                   | Some v \<Rightarrow> v \<in> set names)
       (properties prop)"

definition nameIsGeometry :: "string list \<Rightarrow> propResult \<Rightarrow> bool" where
  "nameIsGeometry names prop =
     (case name prop of
        None \<Rightarrow> False
      | Some n \<Rightarrow> n \<noteq> [] \<and> toLowerCase n \<in> set names)"

definition resolveLeaf :: "string list \<Rightarrow> propResult \<Rightarrow> error + jsval" where
  "resolveLeaf names prop =
     (if hasGeometryProperty names prop \<or> nameIsGeometry names prop then
        (case find (\<lambda>subProp. displayName subProp = ''parent'') (properties prop) of
           None \<Rightarrow> Inl TypeError
         | Some displayProperty \<Rightarrow>
             if truthy (displayValue displayProperty)
             then Inr (displayValue displayProperty)
             else Inr (Num (dbId prop)))
      else Inr (Num (dbId prop)))"

fun resolveLeaves :: "string list \<Rightarrow> propResult list \<Rightarrow> jsval list \<Rightarrow> error + jsval list" where
  "resolveLeaves names [] dbIds = Inr dbIds"
| "resolveLeaves names (prop # rest) dbIds =
     (case resolveLeaf names prop of
        Inl e \<Rightarrow> Inl e
      | Inr v \<Rightarrow> resolveLeaves names rest (dbIds @ [v]))"

text \<open>
  \<open>findActualLeafNodes(model, useCache, useParallel)\<close>: the promise's outcome and the
  extension afterwards. Every failure inside the \<open>try\<close> rejects and stores nothing.
\<close>

definition findActualLeafNodes ::
  "'a BaseExtension_scheme \<Rightarrow> model \<Rightarrow> bool \<Rightarrow> bool
     \<Rightarrow> 'a BaseExtension_scheme \<times> (error + jsval list)" where
  "findActualLeafNodes this m useCache useParallel =
     (if useCache \<and> cachedDbIds this \<noteq> None then (this, Inr (the (cachedDbIds this)))
      else
        (case findLeafNodes m of
           Inl e \<Rightarrow> (this, Inl e)
         | Inr allDbIds \<Rightarrow>
             (case (if useParallel then queryChunks m (chunksOf 1000 allDbIds)
                    else getBulkProperties m allDbIds) of
                Inl e \<Rightarrow> (this, Inl e)
              | Inr props \<Rightarrow>
                  (case resolveLeaves (geometryNames this) props [] of
                     Inl e \<Rightarrow> (this, Inl e)
                   | Inr dbIds \<Rightarrow>
                       (let dbIds' = uniq dbIds in
                        if useCache then (this\<lparr>cachedDbIds := Some dbIds'\<rparr>, Inr dbIds')
                        else (this, Inr dbIds'))))))"

section \<open>Cluster.js: clusters built from an attribute\<close>

text \<open>A \<open>ShapeID\<close> is the pair \<open>{modelId, dbId}\<close>.\<close>

type_synonym ShapeId = "nat \<times> int"

definition createShapeId :: "nat \<Rightarrow> int \<Rightarrow> ShapeId" where
  "createShapeId mId d = (mId, d)"

record Cluster =
  name :: jsval
  shapeIds :: "ShapeId list"

text \<open>
  The callback handed to \<open>enumNodeFragments\<close>, run over the fragments in order with the
  variable \<open>allHidden\<close>; the traversal stops at the first fragment the callback answers
  \<open>true\<close> for.
\<close>

fun visitFragments :: "fragmentList \<Rightarrow> nat list \<Rightarrow> bool \<Rightarrow> bool" where
  "visitFragments fragList [] allHidden = allHidden"
| "visitFragments fragList (fragId # rest) allHidden =
     (let skipped = isNotLoaded fragList fragId;
          hidden = \<not> isFragVisible fragList fragId
      in if \<not> skipped \<and> \<not> hidden then False
         else visitFragments fragList rest allHidden)"

definition hasVisibleFragments :: "model \<Rightarrow> int \<Rightarrow> error + bool" where
  "hasVisibleFragments m d =
     (case getInstanceTree m of
        None \<Rightarrow> Inl TypeError
      | Some it \<Rightarrow> Inr (\<not> visitFragments (getFragmentList m) (enumNodeFragments it d) True))"

text \<open>
  \<open>clustersByName\<close> is a plain object used as a dictionary: its keys are the display
  values converted to strings, in the order of their creation (the order in which
  \<open>Object.values\<close> lists integer-like keys differs and is not modelled; nothing below
  depends on the order of the clusters). A lookup also finds the members every object
  inherits; they are truthy and have no \<open>shapeIds\<close>, so no cluster is created for such a
  key and a \<open>push\<close> on it throws.
\<close>

type_synonym clusterDict = "(string \<times> Cluster) list"

definition objectPrototypeKeys :: "string list" where
  "objectPrototypeKeys =
     [''constructor'', ''__defineGetter__'', ''__defineSetter__'', ''hasOwnProperty'',
      ''__lookupGetter__'', ''__lookupSetter__'', ''isPrototypeOf'',
      ''propertyIsEnumerable'', ''toString'', ''valueOf'', ''__proto__'',
      ''toLocaleString'']"

definition getOrCreate :: "jsval \<Rightarrow> clusterDict \<Rightarrow> clusterDict" where
  "getOrCreate category dict =
     (let key = jsToString category
      in if key \<in> set objectPrototypeKeys \<or> map_of dict key \<noteq> None then dict
         else dict @ [(key, \<lparr>name = category, shapeIds = []\<rparr>)])"

definition pushShapeId :: "string \<Rightarrow> ShapeId \<Rightarrow> clusterDict \<Rightarrow> error + clusterDict" where
  "pushShapeId key sid dict =
     (if key \<in> set objectPrototypeKeys then Inl TypeError
      else Inr (map (\<lambda>(k, c). if k = key then (k, c\<lparr>shapeIds := shapeIds c @ [sid]\<rparr>)
                               else (k, c)) dict))"

fun pushVisibleChildren ::
  "model \<Rightarrow> string \<Rightarrow> int list \<Rightarrow> clusterDict \<Rightarrow> error + clusterDict" where
  "pushVisibleChildren m key [] dict = Inr dict"
| "pushVisibleChildren m key (child # rest) dict =
     (case hasVisibleFragments m child of
        Inl e \<Rightarrow> Inl e
      | Inr visible \<Rightarrow>
          if visible then
            (case pushShapeId key (createShapeId (modelId m) child) dict of
               Inl e \<Rightarrow> Inl e
             | Inr dict' \<Rightarrow> pushVisibleChildren m key rest dict')
          else pushVisibleChildren m key rest dict)"

text \<open>One round of the loop in \<open>onDone\<close>, and the loop.\<close>

definition processItem ::
  "model \<Rightarrow> bool \<Rightarrow> propResult \<Rightarrow> clusterDict \<Rightarrow> error + clusterDict" where
  "processItem m searchAncestors item dict =
     (case properties item of
        [] \<Rightarrow> Inl TypeError
      | p # _ \<Rightarrow>
          (let category = displayValue p;
               key = jsToString category;
               dict' = getOrCreate category dict
           in if searchAncestors then
                (case getInstanceTree m of
                   None \<Rightarrow> Inl TypeError
                 | Some tree \<Rightarrow>
                     pushVisibleChildren m key (enumNodeChildren tree (propResult.dbId item) True) dict')
              else pushShapeId key (createShapeId (modelId m) (propResult.dbId item)) dict'))"

fun onDone :: "model \<Rightarrow> bool \<Rightarrow> propResult list \<Rightarrow> clusterDict \<Rightarrow> error + clusterDict" where
  "onDone m searchAncestors [] dict = Inr dict"
| "onDone m searchAncestors (item # rest) dict =
     (case processItem m searchAncestors item dict of
        Inl e \<Rightarrow> Inl e
      | Inr dict' \<Rightarrow> onDone m searchAncestors rest dict')"

text \<open>
  The \<open>for\<close> loop over the models: the leaf set of each model is awaited in turn, then its
  query is issued. A query is kept as the model, the ids asked for, and the host's answer.
\<close>

type_synonym query = "model \<times> jsval list \<times> propResult list option"

fun issueQueries ::
  "'a BaseExtension_scheme \<Rightarrow> model list \<Rightarrow> string
     \<Rightarrow> 'a BaseExtension_scheme \<times> (error + query list)" where
  "issueQueries this [] attribName = (this, Inr [])"
| "issueQueries this (m # rest) attribName =
     (case findActualLeafNodes this m True True of
        (this', Inl e) \<Rightarrow> (this', Inl e)
      | (this', Inr dbIds) \<Rightarrow>
          (case issueQueries this' rest attribName of
             (this'', Inl e) \<Rightarrow> (this'', Inl e)
           | (this'', Inr qs) \<Rightarrow>
               (this'', Inr ((m, dbIds, getBulkProperties2 m dbIds attribName) # qs))))"

text \<open>
  How an asynchronous computation ends: its promise resolves, rejects, or never settles.
\<close>

datatype 'a outcome = Resolved 'a | Rejected error | Pending

text \<open>
  The host answers the queries in an order of its own. \<open>order\<close> lists the indices of the
  queries in the order of their answers; a query that is not listed is never answered.
\<close>

definition completions :: "nat list \<Rightarrow> query list \<Rightarrow> query list" where
  "completions order qs = map (\<lambda>i. qs ! i) (uniq (filter (\<lambda>i. i < length qs) order))"

text \<open>
  The callbacks in the order of the answers. A promise of the list never settles when
  its query failed or its callback threw before \<open>resolve()\<close>: no path calls \<open>reject\<close>.
\<close>

fun runCallbacks :: "bool \<Rightarrow> query list \<Rightarrow> clusterDict \<Rightarrow> clusterDict option" where
  "runCallbacks searchAncestors [] dict = Some dict"
| "runCallbacks searchAncestors ((m, dbIds, answer) # rest) dict =
     (case answer of
        None \<Rightarrow> None
      | Some result \<Rightarrow>
          (case onDone m searchAncestors result dict of
             Inl e \<Rightarrow> None
           | Inr dict' \<Rightarrow> runCallbacks searchAncestors rest dict'))"

text \<open>
  \<open>buildClustersFromAttribute(models, attribName = 'Category', searchAncestors = true,
  context)\<close>; an argument that is \<open>undefined\<close> (\<open>None\<close>) takes its default.
\<close>

definition attribOf :: "string option \<Rightarrow> string" where
  "attribOf attribName = (case attribName of None \<Rightarrow> ''Category'' | Some a \<Rightarrow> a)"

definition expandOf :: "bool option \<Rightarrow> bool" where
  "expandOf searchAncestors = (case searchAncestors of None \<Rightarrow> True | Some b \<Rightarrow> b)"

definition buildClustersFromAttribute ::
  "'a BaseExtension_scheme \<Rightarrow> model list \<Rightarrow> string option \<Rightarrow> bool option \<Rightarrow> nat list
     \<Rightarrow> 'a BaseExtension_scheme \<times> Cluster list outcome" where
  "buildClustersFromAttribute context models attribName searchAncestors order =
     (case issueQueries context models (attribOf attribName) of
        (context', Inl e) \<Rightarrow> (context', Rejected e)
      | (context', Inr qs) \<Rightarrow>
          if list_all (\<lambda>i. i \<in> set order) [0 ..< length qs] then
            (case runCallbacks (expandOf searchAncestors) (completions order qs) [] of
               None \<Rightarrow> (context', Pending)
             | Some clustersByName \<Rightarrow> (context', Resolved (map snd clustersByName)))
          else (context', Pending))"

section \<open>VisualClusters.js: the default layout\<close>

definition modelSupported :: "model \<Rightarrow> bool" where
  "modelSupported m = (is3d m \<and> getInstanceTree m \<noteq> None)"

text \<open>
  \<open>c.name != 'Revit Topography' && ...\<close>: a loose comparison with a string literal is
  true exactly for that string (a number is compared with \<open>NaN\<close>).
\<close>

definition clusterFilter :: "Cluster \<Rightarrow> bool" where
  "clusterFilter c =
     (name c \<noteq> Str ''Revit Topography'' \<and> name c \<noteq> Str ''Revit Rooms''
      \<and> name c \<noteq> Str ''Revit <Sketch>'')"

text \<open>
  \<open>RotationAlignment\<close>, \<open>ShapeBoxes\<close> and \<open>createClusterSetLayout\<close> are imported from
  files that are not part of the sources. \<open>layoutOf clusters models alignShapeRotation\<close>
  stands for the layout they compute from the clusters and models handed to them.
\<close>

definition createDefaultLayout ::
  "(Cluster list \<Rightarrow> model list \<Rightarrow> bool \<Rightarrow> 'l) \<Rightarrow> 'a BaseExtension_scheme \<Rightarrow> model list \<Rightarrow> bool
     \<Rightarrow> string option \<Rightarrow> bool option \<Rightarrow> nat list
     \<Rightarrow> 'a BaseExtension_scheme \<times> 'l outcome" where
  "createDefaultLayout layoutOf context models alignShapeRotation attribName searchAncestors order =
     (let models' = filter modelSupported models
      in case buildClustersFromAttribute context models' attribName searchAncestors order of
           (context', Rejected e) \<Rightarrow> (context', Rejected e)
         | (context', Pending) \<Rightarrow> (context', Pending)
         | (context', Resolved clusters) \<Rightarrow>
             (context', Resolved (layoutOf (filter clusterFilter clusters) models' alignShapeRotation)))"


section \<open>VisualClusters.js: the extension\<close>

text \<open>
  The animation controller, the gizmo controller, the toolbar button and the viewer's
  events belong to the host or to files that are not part of the sources. The calls the
  extension makes on the two controllers, and the calls of its methods \<open>updateButton\<close>
  and \<open>onTransitionStarted\<close>, which only act on the button and fire an event, are
  recorded in order in \<open>calls\<close>: what the extension does to its surroundings is this list.
\<close>

datatype ('l, 's) call =
    UpdateButton
  | OnTransitionStarted
  | AnimateTo "string option"
  | RegisterState string 's
  | GizmoLayoutChanged "'l option"
  | AnimReset
  | GizmoReset

definition ClusteredStateName :: string where
  "ClusteredStateName = ''ByCategory''"

text \<open>
  \<open>layoutTimeStamp\<close> only counts upwards from 0 by steps of one; a JavaScript number
  is exact on such values up to \<open>2^53\<close>, which no session reaches, so it is a natural
  number here.
\<close>

record ('l, 's) VisualClustersExtension = BaseExtension +
  layoutActive :: bool
  layoutTimeStamp :: nat
  customSceneLayout :: "'l option"
  sceneLayout :: "'l option"
  sceneAnimState :: "'s option"
  calls :: "('l, 's) call list"

text \<open>
  \<open>applyLayout\<close> runs up to its \<open>await\<close>, and later from there on. What it keeps across
  the \<open>await\<close> are its locals \<open>layoutTimeStamp\<close> and \<open>models\<close>. \<open>createSceneState\<close> is
  the method of that name of the layout object (from a file outside the sources).
\<close>

type_synonym 'm suspended = "nat \<times> 'm"

text \<open>The part of \<open>applyLayout\<close> after \<open>sceneLayout\<close> is known.\<close>

definition applyLayout_finish ::
  "('l \<Rightarrow> 'm \<Rightarrow> 's) \<Rightarrow> 'm suspended \<Rightarrow> 'l \<Rightarrow> ('l, 's) VisualClustersExtension
     \<Rightarrow> ('l, 's) VisualClustersExtension" where
  "applyLayout_finish createSceneState k layout this =
     (if \<not> layoutActive this \<or> fst k \<noteq> layoutTimeStamp this then this
      else
        (let st = createSceneState layout (snd k)
         in this\<lparr>sceneLayout := Some layout,
                 sceneAnimState := Some st,
                 calls := calls this @
                   [RegisterState ClusteredStateName st, OnTransitionStarted,
                    AnimateTo (Some ClusteredStateName), GizmoLayoutChanged (Some layout)]\<rparr>))"

text \<open>
  The part of \<open>applyLayout\<close> up to the \<open>await\<close>. With a \<open>customSceneLayout\<close> nothing is
  awaited and the call runs to its end at once; otherwise it is suspended.
\<close>

definition applyLayout_start ::
  "('l \<Rightarrow> 'm \<Rightarrow> 's) \<Rightarrow> 'm \<Rightarrow> ('l, 's) VisualClustersExtension
     \<Rightarrow> ('l, 's) VisualClustersExtension \<times> 'm suspended option" where
  "applyLayout_start createSceneState models this =
     (let this' = this\<lparr>layoutTimeStamp := layoutTimeStamp this + 1\<rparr>;
          k = (layoutTimeStamp this', models)
      in case customSceneLayout this' of
           Some layout \<Rightarrow> (applyLayout_finish createSceneState k layout this', None)
         | None \<Rightarrow> (this', Some k))"

text \<open>
  The suspended call is resumed when \<open>createDefaultLayout\<close> settles: with an error the
  \<open>await\<close> throws and the rest of the function is skipped.
\<close>

definition applyLayout_resume ::
  "('l \<Rightarrow> 'm \<Rightarrow> 's) \<Rightarrow> 'm suspended \<Rightarrow> error + 'l \<Rightarrow> ('l, 's) VisualClustersExtension
     \<Rightarrow> ('l, 's) VisualClustersExtension" where
  "applyLayout_resume createSceneState k settled this =
     (case settled of
        Inl e \<Rightarrow> this
      | Inr layout \<Rightarrow> applyLayout_finish createSceneState k layout this)"

text \<open>\<open>models\<close> is what \<open>viewer.getVisibleModels()\<close> answers at the time of the call.\<close>

definition setLayoutActive ::
  "('l \<Rightarrow> 'm \<Rightarrow> 's) \<Rightarrow> bool \<Rightarrow> 'm \<Rightarrow> ('l, 's) VisualClustersExtension
     \<Rightarrow> ('l, 's) VisualClustersExtension \<times> 'm suspended option" where
  "setLayoutActive createSceneState active models this =
     (if layoutActive this = active then (this, None)
      else
        (let this' = this\<lparr>layoutActive := active, calls := calls this @ [UpdateButton]\<rparr>
         in if \<not> active then
              (this'\<lparr>calls := calls this' @
                  [OnTransitionStarted, AnimateTo None, GizmoLayoutChanged None]\<rparr>, None)
            else applyLayout_start createSceneState models this'))"

definition reset :: "('l, 's) VisualClustersExtension \<Rightarrow> ('l, 's) VisualClustersExtension" where
  "reset this =
     this\<lparr>layoutActive := False, calls := calls this @ [AnimReset, GizmoReset, UpdateButton]\<rparr>"

text \<open>
  A session: the extension together with the suspended calls of \<open>applyLayout\<close>, driven by
  what happens to it. \<open>Settle i r\<close> is the layout computation of the \<open>i\<close>-th suspended
  call settling with \<open>r\<close>.
\<close>

datatype ('l, 'm) event =
    SetLayoutActive bool 'm
  | ApplyLayout 'm
  | Reset
  | Settle nat "error + 'l"

type_synonym ('l, 's, 'm) session = "('l, 's) VisualClustersExtension \<times> 'm suspended list"

definition suspend :: "'m suspended option \<Rightarrow> 'm suspended list \<Rightarrow> 'm suspended list" where
  "suspend k pending = (case k of None \<Rightarrow> pending | Some c \<Rightarrow> pending @ [c])"

fun step ::
  "('l \<Rightarrow> 'm \<Rightarrow> 's) \<Rightarrow> ('l, 'm) event \<Rightarrow> ('l, 's, 'm) session \<Rightarrow> ('l, 's, 'm) session" where
  "step css (SetLayoutActive active models) (this, pending) =
     (case setLayoutActive css active models this of
        (this', k) \<Rightarrow> (this', suspend k pending))"
| "step css (ApplyLayout models) (this, pending) =
     (case applyLayout_start css models this of
        (this', k) \<Rightarrow> (this', suspend k pending))"
| "step css Reset (this, pending) = (reset this, pending)"
| "step css (Settle i r) (this, pending) =
     (if i < length pending
      then (applyLayout_resume css (pending ! i) r this, take i pending @ drop (Suc i) pending)
      else (this, pending))"

fun run ::
  "('l \<Rightarrow> 'm \<Rightarrow> 's) \<Rightarrow> ('l, 'm) event list \<Rightarrow> ('l, 's, 'm) session \<Rightarrow> ('l, 's, 'm) session" where
  "run css [] s = s"
| "run css (ev # evs) s = run css evs (step css ev s)"


section \<open>Notions used to state the properties\<close>

text \<open>The shape ids held by a list of clusters.\<close>

definition shapesOf :: "Cluster list \<Rightarrow> ShapeId set" where
  "shapesOf clusters = (\<Union>c \<in> set clusters. set (shapeIds c))"

text \<open>
  The descendants of an element, as the host enumerates them, that have a visible
  fragment; and what one answered entry adds to its cluster in either mode.
\<close>

definition visibleChildren :: "model \<Rightarrow> int \<Rightarrow> int list" where
  "visibleChildren m d =
     (case getInstanceTree m of
        None \<Rightarrow> []
      | Some tree \<Rightarrow>
          filter (\<lambda>child. hasVisibleFragments m child = Inr True) (enumNodeChildren tree d True))"

definition contribution :: "bool \<Rightarrow> model \<Rightarrow> propResult \<Rightarrow> ShapeId list" where
  "contribution searchAncestors m item =
     (if searchAncestors then map (createShapeId (modelId m)) (visibleChildren m (propResult.dbId item))
      else [createShapeId (modelId m) (propResult.dbId item)])"

definition answerOf :: "query \<Rightarrow> propResult list" where
  "answerOf q = (case snd (snd q) of None \<Rightarrow> [] | Some result \<Rightarrow> result)"

definition contributions :: "bool \<Rightarrow> query list \<Rightarrow> ShapeId set" where
  "contributions searchAncestors qs =
     (\<Union>q \<in> set qs. \<Union>item \<in> set (answerOf q). set (contribution searchAncestors (fst q) item))"




text \<open>The key under which an entry is filed, if it has a property.\<close>

definition categoryKey :: "propResult \<Rightarrow> string option" where
  "categoryKey item =
     (case properties item of [] \<Rightarrow> None | p # _ \<Rightarrow> Some (jsToString (displayValue p)))"

definition wellKeyed :: "propResult \<Rightarrow> bool" where
  "wellKeyed item =
     (case categoryKey item of None \<Rightarrow> False | Some key \<Rightarrow> key \<notin> set objectPrototypeKeys)"

text \<open>
  What a dictionary holds, as pairs of a key and a shape id; what one answered entry files
  under its key; and the well-formedness of a dictionary built by \<open>onDone\<close>.
\<close>

definition entries :: "clusterDict \<Rightarrow> (string \<times> ShapeId) set" where
  "entries dict = (\<Union>kc \<in> set dict. {fst kc} \<times> set (shapeIds (snd kc)))"

definition filed :: "bool \<Rightarrow> model \<Rightarrow> propResult \<Rightarrow> (string \<times> ShapeId) set" where
  "filed searchAncestors m item =
     (case categoryKey item of
        None \<Rightarrow> {}
      | Some key \<Rightarrow> {key} \<times> set (contribution searchAncestors m item))"

definition dictOk :: "clusterDict \<Rightarrow> bool" where
  "dictOk dict =
     (distinct (map fst dict)
      \<and> list_all (\<lambda>kc. fst kc = jsToString (name (snd kc)) \<and> fst kc \<notin> set objectPrototypeKeys) dict)"

text \<open>
  The display value an entry is grouped by, the names of the clusters of a dictionary, and
  a query whose callback runs to its end.
\<close>

definition categoryOf :: "propResult \<Rightarrow> jsval option" where
  "categoryOf item = (case properties item of [] \<Rightarrow> None | p # _ \<Rightarrow> Some (displayValue p))"

definition namesIn :: "clusterDict \<Rightarrow> jsval set" where
  "namesIn dict = (\<lambda>kc. name (snd kc)) ` set dict"

definition answerable :: "bool \<Rightarrow> query \<Rightarrow> bool" where
  "answerable sa q =
     (snd (snd q) \<noteq> None \<and> list_all wellKeyed (answerOf q)
      \<and> (sa \<longrightarrow> getInstanceTree (fst q) \<noteq> None))"



text \<open>
  An entry is flagged as raw geometry by a property value or by its name; its \<open>parent\<close>
  property is the first property of that display name.
\<close>

definition isGeometry :: "string list \<Rightarrow> propResult \<Rightarrow> bool" where
  "isGeometry names prop = (hasGeometryProperty names prop \<or> nameIsGeometry names prop)"

definition parentProperty :: "propResult \<Rightarrow> property option" where
  "parentProperty prop =
     find (\<lambda>subProp. displayName subProp = ''parent'') (properties prop)"

section \<open>Example scenes and sessions\<close>

text \<open>
  A scene whose root (id 1) has the given elements as its children, all of them leaves
  with one fragment each, loaded, and hidden for the elements listed as hidden. The host
  enumerates a node before its descendants when asked to recurse. \<open>props\<close> is the entry
  of an element in an unfiltered property query; \<open>attrib a d\<close> is its entry in a query
  filtered to the attribute \<open>a\<close>, if it has that attribute.
\<close>

definition flatTree :: "int list \<Rightarrow> instanceTree" where
  "flatTree leaves =
     \<lparr>getRootId = 1,
      getChildCount = (\<lambda>d. if d = 1 then length leaves else 0),
      enumNodeChildren =
        (\<lambda>d recursive. if d = 1 then (if recursive then 1 # leaves else leaves)
                        else if recursive then [d] else []),
      enumNodeFragments = (\<lambda>d. if d \<in> set leaves then [nat d] else [])\<rparr>"

definition flatScene ::
  "nat \<Rightarrow> int list \<Rightarrow> int list \<Rightarrow> (int \<Rightarrow> propResult)
     \<Rightarrow> (string \<Rightarrow> int \<Rightarrow> propResult option) \<Rightarrow> model" where
  "flatScene mId leaves hiddenLeaves props attrib =
     \<lparr>modelId = mId, is3d = True,
      getInstanceTree = Some (flatTree leaves),
      getFragmentList =
        \<lparr>isNotLoaded = (\<lambda>f. False), isFragVisible = (\<lambda>f. int f \<notin> set hiddenLeaves)\<rparr>,
      getObjectTree = Inr (flatTree leaves),
      getBulkProperties = (\<lambda>ids. Inr (map props ids)),
      getBulkProperties2 =
        (\<lambda>ids attribName.
           Some (List.map_filter
                   (\<lambda>v. case v of Num d \<Rightarrow> attrib attribName d | _ \<Rightarrow> None) ids))\<rparr>"

definition entry :: "int \<Rightarrow> string \<Rightarrow> (string \<times> jsval) list \<Rightarrow> propResult" where
  "entry d n ps =
     \<lparr>dbId = d, name = Some n,
      properties = map (\<lambda>(k, v). \<lparr>displayName = k, displayValue = v\<rparr>) ps\<rparr>"

text \<open>
  A house: model 1 with a wall (element 2) and a room (element 3) whose fragment is
  hidden. Both have a \<open>Category\<close>; only the wall has a \<open>Material\<close>. The host leaves out
  of a filtered answer the elements that do not have the attribute.
\<close>

definition houseScene :: model where
  "houseScene =
     flatScene 1 [2, 3] [3] (\<lambda>d. entry d ''Element'' [])
       (\<lambda>a d. if a = ''Category''
              then Some (entry d ''Element''
                     [(''Category'', Str (if d = 2 then ''Walls'' else ''Revit Rooms''))])
              else if a = ''Material'' \<and> d = 2
              then Some (entry d ''Element'' [(''Material'', Str ''Brick'')])
              else None)"

text \<open>
  An assembly: model 1 whose root has the child 10, which has the two leaves 11, named
  \<open>Body\<close>, and 12, named \<open>Wall\<close>; both leaves have a visible fragment and the
  \<open>parent\<close> 10. The \<open>Category\<close> of 10 is \<open>Assemblies\<close>, that of the other elements
  \<open>Walls\<close>; only 10 has a \<open>Material\<close>. \<open>nestedLeaves\<close> is the base extension after it
  resolved the leaves of this model.
\<close>

definition nestedTree :: instanceTree where
  "nestedTree =
     \<lparr>getRootId = 1,
      getChildCount = (\<lambda>d. if d = 1 then 1 else if d = 10 then 2 else 0),
      enumNodeChildren =
        (\<lambda>d recursive.
           if d = 1 then (if recursive then [1, 10, 11, 12] else [10])
           else if d = 10 then (if recursive then [10, 11, 12] else [11, 12])
           else if recursive then [d] else []),
      enumNodeFragments = (\<lambda>d. if d = 11 \<or> d = 12 then [nat d] else [])\<rparr>"

definition nestedScene :: model where
  "nestedScene =
     \<lparr>modelId = 1, is3d = True,
      getInstanceTree = Some nestedTree,
      getFragmentList = \<lparr>isNotLoaded = (\<lambda>f. False), isFragVisible = (\<lambda>f. True)\<rparr>,
      getObjectTree = Inr nestedTree,
      getBulkProperties =
        (\<lambda>ids. Inr (map (\<lambda>d. entry d (if d = 11 then ''Body'' else ''Wall'')
                                [(''parent'', Num 10)]) ids)),
      getBulkProperties2 =
        (\<lambda>ids attribName.
           Some (List.map_filter
                   (\<lambda>v. case v of
                          Num d \<Rightarrow>
                            if attribName = ''Category''
                            then Some (entry d ''Element''
                                   [(''Category'', Str (if d = 10 then ''Assemblies'' else ''Walls''))])
                            else if attribName = ''Material'' \<and> d = 10
                            then Some (entry d ''Element'' [(''Material'', Str ''Brick'')])
                            else None
                        | _ \<Rightarrow> None) ids))\<rparr>"

text \<open>The house when the host fails the attribute query, and a 2D sheet.\<close>

definition unansweredScene :: model where
  "unansweredScene = houseScene\<lparr>getBulkProperties2 := (\<lambda>ids a. None)\<rparr>"

definition sheetScene :: model where
  "sheetScene =
     (flatScene 2 [5] [] (\<lambda>d. entry d ''Viewport'' [])
        (\<lambda>a d. Some (entry d ''Viewport'' [(a, Str ''Sheets'')])))\<lparr>is3d := False\<rparr>"

text \<open>
  The base extension as its constructor leaves it, and after it resolved the leaves of the
  house.
\<close>

definition newBase :: BaseExtension where
  "newBase = \<lparr>cachedDbIds = None, geometryNames = [''mesh'', ''body'']\<rparr>"

definition houseLeaves :: BaseExtension where
  "houseLeaves = newBase\<lparr>cachedDbIds := Some [Num 2, Num 3]\<rparr>"

definition nestedLeaves :: BaseExtension where
  "nestedLeaves = newBase\<lparr>cachedDbIds := Some [Num 10, Num 12]\<rparr>"

text \<open>A stand-in for the layout computation: it records what it was handed.\<close>

definition describe ::
  "Cluster list \<Rightarrow> model list \<Rightarrow> bool \<Rightarrow> Cluster list \<times> nat list \<times> bool" where
  "describe clusters models alignShapeRotation =
     (clusters, map modelId models, alignShapeRotation)"

text \<open>The whole extension as its constructors leave it.\<close>

definition constructed :: "(nat, nat \<times> nat) VisualClustersExtension" where
  "constructed =
     \<lparr>cachedDbIds = None, geometryNames = [''mesh'', ''body''],
      layoutActive = False, layoutTimeStamp = 0, customSceneLayout = None,
      sceneLayout = None, sceneAnimState = None, calls = []\<rparr>"

section \<open>Leaf resolution\<close>

lemmas scene_defs = flatScene_def flatTree_def entry_def newBase_def findActualLeafNodes_def
  findLeafNodes_def chunksOf_def resolveLeaf_def hasGeometryProperty_def nameIsGeometry_def
  uniq_def toLowerCase_def toLowerChar_def isGeometry_def parentProperty_def Let_def
  showNat.simps digitChar_def

lemma resolveLeaves_error: "resolveLeaves names props acc = Inl e \<Longrightarrow> e = TypeError"
proof (induction props arbitrary: acc)
  case Nil
  then show ?case by simp
next
  case (Cons first rest)
  then show ?case
    by (cases "resolveLeaf names first")
       (auto simp: resolveLeaf_def split: if_splits option.splits)
qed

lemma resolveLeaves_fails:
  "p \<in> set props \<Longrightarrow> resolveLeaf names p = Inl e
     \<Longrightarrow> resolveLeaves names props acc = Inl TypeError"
proof (induction props arbitrary: acc)
  case Nil
  then show ?case by simp
next
  case (Cons first rest)
  show ?case
  proof (cases "resolveLeaf names first")
    case (Inl e')
    then have "resolveLeaves names (first # rest) acc = Inl e'" by simp
    from this resolveLeaves_error [OF this] show ?thesis by simp
  next
    case (Inr v)
    with Cons.prems have "p \<in> set rest" by auto
    from Cons.IH [OF this Cons.prems(2)] Inr show ?thesis by simp
  qed
qed

text \<open>
  C5. Once \<open>cachedDbIds\<close> holds a result, a call with \<open>useCache\<close> returns it as it is and
  leaves the extension unchanged, for every model \<open>m'\<close>: the cache is one field of the
  extension and is not keyed by the model. So after a successful cached call for a model
  \<open>m\<close>, the call for any other model \<open>m'\<close> answers with the leaves of \<open>m\<close>.
\<close>

theorem cache_ignores_model:
  "(cachedDbIds this = Some ids
      \<longrightarrow> findActualLeafNodes this m' True useParallel' = (this, Inr ids))
   \<and> (findActualLeafNodes this m True useParallel = (this', Inr ids)
      \<longrightarrow> findActualLeafNodes this' m' True useParallel' = (this', Inr ids))"
proof -
  have hit: "findActualLeafNodes t m' True useParallel' = (t, Inr ids)"
    if "cachedDbIds t = Some ids" for t :: "'a BaseExtension_scheme"
    using that by (simp add: findActualLeafNodes_def)
  have "cachedDbIds this' = Some ids"
    if "findActualLeafNodes this m True useParallel = (this', Inr ids)"
    using that
    by (auto simp: findActualLeafNodes_def Let_def split: if_splits sum.splits)
  with hit show ?thesis by blast
qed

text \<open>
  Two scenes: model 1 with the single element 2, model 2 with the single element 3. The
  cached call for model 1 answers \<open>[2]\<close>; the call for model 2 that follows answers
  \<open>[2]\<close> as well, where model 2 on its own (no cache) resolves to \<open>[3]\<close>.
\<close>

theorem cache_ignores_model_witness:
  "findActualLeafNodes newBase
      (flatScene 1 [2] [] (\<lambda>d. entry d ''Wall'' []) (\<lambda>a d. None)) True True
     = (newBase\<lparr>cachedDbIds := Some [Num 2]\<rparr>, Inr [Num 2])
   \<and> findActualLeafNodes (newBase\<lparr>cachedDbIds := Some [Num 2]\<rparr>)
      (flatScene 2 [3] [] (\<lambda>d. entry d ''Door'' []) (\<lambda>a d. None)) True True
     = (newBase\<lparr>cachedDbIds := Some [Num 2]\<rparr>, Inr [Num 2])
   \<and> findActualLeafNodes (newBase\<lparr>cachedDbIds := Some [Num 2]\<rparr>)
      (flatScene 2 [3] [] (\<lambda>d. entry d ''Door'' []) (\<lambda>a d. None)) False True
     = (newBase\<lparr>cachedDbIds := Some [Num 2]\<rparr>, Inr [Num 3])"
proof -
  have first: "findActualLeafNodes newBase
      (flatScene 1 [2] [] (\<lambda>d. entry d ''Wall'' []) (\<lambda>a d. None)) True True
     = (newBase\<lparr>cachedDbIds := Some [Num 2]\<rparr>, Inr [Num 2])"
    by (simp add: scene_defs)
  have own: "findActualLeafNodes (newBase\<lparr>cachedDbIds := Some [Num 2]\<rparr>)
      (flatScene 2 [3] [] (\<lambda>d. entry d ''Door'' []) (\<lambda>a d. None)) False True
     = (newBase\<lparr>cachedDbIds := Some [Num 2]\<rparr>, Inr [Num 3])"
    by (simp add: scene_defs)
  from cache_ignores_model
    [of newBase "[Num 2]" "flatScene 2 [3] [] (\<lambda>d. entry d ''Door'' []) (\<lambda>a d. None)" True
        "flatScene 1 [2] [] (\<lambda>d. entry d ''Wall'' []) (\<lambda>a d. None)" True
        "newBase\<lparr>cachedDbIds := Some [Num 2]\<rparr>"]
    first own
  show ?thesis by blast
qed

text \<open>
  C6. What the loop body pushes for one entry of the bulk result. An entry flagged as
  geometry whose \<open>parent\<close> property has a truthy value is replaced by that value; an
  entry that is not flagged, or whose \<open>parent\<close> property has a falsy value, is kept as
  itself. The remaining case differs from the claim: a flagged entry without any
  \<open>parent\<close> property is not kept as itself, the access to the missing property throws.
\<close>

theorem resolveLeaf_cases:
  "(isGeometry names p \<and> parentProperty p = Some dp \<and> truthy (displayValue dp)
      \<longrightarrow> resolveLeaf names p = Inr (displayValue dp))
   \<and> (isGeometry names p \<and> parentProperty p = Some dp \<and> \<not> truthy (displayValue dp)
      \<longrightarrow> resolveLeaf names p = Inr (Num (propResult.dbId p)))
   \<and> (\<not> isGeometry names p \<longrightarrow> resolveLeaf names p = Inr (Num (propResult.dbId p)))
   \<and> (isGeometry names p \<and> parentProperty p = None
      \<longrightarrow> resolveLeaf names p = Inl TypeError)"
  by (simp add: resolveLeaf_def isGeometry_def parentProperty_def)

text \<open>
  The example of the specification, an element named \<open>Mesh\<close> whose \<open>parent\<close> is 42,
  resolves to \<open>[42]\<close>; an element with the property value \<open>Body\<close> and no \<open>parent\<close>
  property makes the resolution reject.
\<close>

theorem resolveLeaf_cases_witness:
  "findActualLeafNodes newBase
      (flatScene 1 [7] [] (\<lambda>d. entry d ''Mesh'' [(''parent'', Num 42)]) (\<lambda>a d. None)) True True
     = (newBase\<lparr>cachedDbIds := Some [Num 42]\<rparr>, Inr [Num 42])
   \<and> resolveLeaf [''mesh'', ''body''] (entry 7 ''Mesh'' [(''parent'', Num 42)]) = Inr (Num 42)
   \<and> resolveLeaf [''mesh'', ''body''] (entry 7 ''Mesh'' [(''parent'', Num 0)]) = Inr (Num 7)
   \<and> resolveLeaf [''mesh'', ''body''] (entry 7 ''Wall'' [(''parent'', Num 42)]) = Inr (Num 7)
   \<and> resolveLeaf [''mesh'', ''body''] (entry 7 ''Solid1'' [(''Type'', Str ''Body'')])
       = Inl TypeError"
proof -
  have a: "findActualLeafNodes newBase
      (flatScene 1 [7] [] (\<lambda>d. entry d ''Mesh'' [(''parent'', Num 42)]) (\<lambda>a d. None)) True True
     = (newBase\<lparr>cachedDbIds := Some [Num 42]\<rparr>, Inr [Num 42])"
    by (simp add: scene_defs)
  have g1: "isGeometry [''mesh'', ''body''] (entry 7 ''Mesh'' [(''parent'', Num 42)])
      \<and> parentProperty (entry 7 ''Mesh'' [(''parent'', Num 42)])
          = Some \<lparr>displayName = ''parent'', displayValue = Num 42\<rparr>"
    by (simp add: scene_defs)
  have g2: "isGeometry [''mesh'', ''body''] (entry 7 ''Mesh'' [(''parent'', Num 0)])
      \<and> parentProperty (entry 7 ''Mesh'' [(''parent'', Num 0)])
          = Some \<lparr>displayName = ''parent'', displayValue = Num 0\<rparr>"
    by (simp add: scene_defs)
  have g3: "\<not> isGeometry [''mesh'', ''body''] (entry 7 ''Wall'' [(''parent'', Num 42)])"
    by (simp add: scene_defs)
  have g4: "isGeometry [''mesh'', ''body''] (entry 7 ''Solid1'' [(''Type'', Str ''Body'')])
      \<and> parentProperty (entry 7 ''Solid1'' [(''Type'', Str ''Body'')]) = None"
    by (simp add: scene_defs)
  from g1 resolveLeaf_cases [of "[''mesh'', ''body'']" "entry 7 ''Mesh'' [(''parent'', Num 42)]"
      "\<lparr>displayName = ''parent'', displayValue = Num 42\<rparr>"]
  have r1: "resolveLeaf [''mesh'', ''body''] (entry 7 ''Mesh'' [(''parent'', Num 42)]) = Inr (Num 42)"
    by simp
  from g2 resolveLeaf_cases [of "[''mesh'', ''body'']" "entry 7 ''Mesh'' [(''parent'', Num 0)]"
      "\<lparr>displayName = ''parent'', displayValue = Num 0\<rparr>"]
  have r2: "resolveLeaf [''mesh'', ''body''] (entry 7 ''Mesh'' [(''parent'', Num 0)]) = Inr (Num 7)"
    by (simp add: entry_def)
  from g3 resolveLeaf_cases [of "[''mesh'', ''body'']" "entry 7 ''Wall'' [(''parent'', Num 42)]"]
  have r3: "resolveLeaf [''mesh'', ''body''] (entry 7 ''Wall'' [(''parent'', Num 42)]) = Inr (Num 7)"
    by (simp add: entry_def)
  from g4 resolveLeaf_cases [of "[''mesh'', ''body'']" "entry 7 ''Solid1'' [(''Type'', Str ''Body'')]"]
  have r4: "resolveLeaf [''mesh'', ''body''] (entry 7 ''Solid1'' [(''Type'', Str ''Body'')])
      = Inl TypeError"
    by simp
  from a r1 r2 r3 r4 show ?thesis by blast
qed

text \<open>
  C7. When the bulk result holds an entry that is flagged as geometry and has no property
  named \<open>parent\<close>, a resolution that is not served from the cache rejects with a
  \<open>TypeError\<close> and stores nothing: it does not fall back to the id of the leaf.
\<close>

theorem missing_parent_rejects:
  assumes "\<not> (useCache \<and> cachedDbIds this \<noteq> None)"
    and "findLeafNodes m = Inr allDbIds"
    and "(if useParallel then queryChunks m (chunksOf 1000 allDbIds)
          else getBulkProperties m allDbIds) = Inr props"
    and "p \<in> set props"
    and "isGeometry (geometryNames this) p"
    and "parentProperty p = None"
  shows "findActualLeafNodes this m useCache useParallel = (this, Inl TypeError)"
proof -
  have "resolveLeaf (geometryNames this) p = Inl TypeError"
    using assms(5,6) by (simp add: resolveLeaf_def isGeometry_def parentProperty_def)
  with assms(4) have "resolveLeaves (geometryNames this) props [] = Inl TypeError"
    by (rule resolveLeaves_fails)
  with assms(1,2,3) show ?thesis
    by (auto simp: findActualLeafNodes_def)
qed

text \<open>
  A scene with the two leaves 7 and 8: 7 is an ordinary element, 8 is named \<open>mesh\<close> and
  has no properties at all.
\<close>

theorem missing_parent_rejects_witness:
  "findLeafNodes (flatScene 1 [7, 8] []
       (\<lambda>d. if d = 8 then entry d ''mesh'' [] else entry d ''Wall'' []) (\<lambda>a d. None))
     = Inr [7, 8]
   \<and> isGeometry (geometryNames newBase) (entry 8 ''mesh'' [])
   \<and> parentProperty (entry 8 ''mesh'' []) = None
   \<and> findActualLeafNodes newBase (flatScene 1 [7, 8] []
       (\<lambda>d. if d = 8 then entry d ''mesh'' [] else entry d ''Wall'' []) (\<lambda>a d. None)) True True
     = (newBase, Inl TypeError)"
proof -
  let ?m = "flatScene 1 [7, 8] []
       (\<lambda>d. if d = 8 then entry d ''mesh'' [] else entry d ''Wall'' []) (\<lambda>a d. None)"
  have h1: "\<not> (True \<and> cachedDbIds newBase \<noteq> None)"
    by (simp add: newBase_def)
  have h2: "findLeafNodes ?m = Inr [7, 8]"
    by (simp add: scene_defs)
  have h3: "(if True then queryChunks ?m (chunksOf 1000 [7, 8])
             else getBulkProperties ?m [7, 8]) = Inr [entry 7 ''Wall'' [], entry 8 ''mesh'' []]"
    by (simp add: scene_defs)
  have h4: "entry 8 ''mesh'' [] \<in> set [entry 7 ''Wall'' [], entry 8 ''mesh'' []]"
    by simp
  have h5: "isGeometry (geometryNames newBase) (entry 8 ''mesh'' [])"
    by (simp add: scene_defs)
  have h6: "parentProperty (entry 8 ''mesh'' []) = None"
    by (simp add: scene_defs)
  from missing_parent_rejects [OF h1 h2 h3 h4 h5 h6] h2 h5 h6 show ?thesis by blast
qed

section \<open>The clusters of a build\<close>

lemmas build_defs = buildClustersFromAttribute_def attribOf_def expandOf_def completions_def
  processItem_def getOrCreate_def pushShapeId_def hasVisibleFragments_def createShapeId_def
  objectPrototypeKeys_def List.map_filter_simps shapesOf_def houseScene_def

subsection \<open>The house, evaluated\<close>


lemma house_issue_material:
  "issueQueries newBase [houseScene] (attribOf (Some ''Material''))
     = (houseLeaves,
        Inr [(houseScene, [Num 2, Num 3],
              Some [entry 2 ''Element'' [(''Material'', Str ''Brick'')]])])"
  by (simp add: scene_defs build_defs houseLeaves_def)

lemma house_expanded:
  "buildClustersFromAttribute newBase [houseScene] None None [0]
     = (houseLeaves,
        Resolved [\<lparr>name = Str ''Walls'', shapeIds = [(1, 2)]\<rparr>,
                  \<lparr>name = Str ''Revit Rooms'', shapeIds = []\<rparr>])"
  by (simp add: scene_defs build_defs houseLeaves_def)

lemma house_plain:
  "buildClustersFromAttribute newBase [houseScene] None (Some False) [0]
     = (houseLeaves,
        Resolved [\<lparr>name = Str ''Walls'', shapeIds = [(1, 2)]\<rparr>,
                  \<lparr>name = Str ''Revit Rooms'', shapeIds = [(1, 3)]\<rparr>])"
  by (simp add: scene_defs build_defs houseLeaves_def)

lemma house_material:
  "buildClustersFromAttribute newBase [houseScene] (Some ''Material'') (Some False) [0]
     = (houseLeaves, Resolved [\<lparr>name = Str ''Brick'', shapeIds = [(1, 2)]\<rparr>])"
  by (simp add: scene_defs build_defs houseLeaves_def)

subsection \<open>The assembly, evaluated\<close>

lemmas nested_defs = nestedScene_def nestedTree_def nestedLeaves_def

lemma nested_leaves:
  "findActualLeafNodes newBase nestedScene True True = (nestedLeaves, Inr [Num 10, Num 12])"
  by (simp add: scene_defs nested_defs)



lemma nested_issue_material:
  "issueQueries newBase [nestedScene] (attribOf (Some ''Material''))
     = (nestedLeaves,
        Inr [(nestedScene, [Num 10, Num 12],
              Some [entry 10 ''Element'' [(''Material'', Str ''Brick'')]])])"
  by (simp add: scene_defs build_defs nested_defs)

lemma nested_material:
  "buildClustersFromAttribute newBase [nestedScene] (Some ''Material'') None [0]
     = (nestedLeaves,
        Resolved [\<lparr>name = Str ''Brick'', shapeIds = [(1, 11), (1, 12)]\<rparr>])"
  by (simp add: scene_defs build_defs nested_defs)


subsection \<open>What the callbacks file in the dictionary\<close>

lemma set_uniqInto: "set (uniqInto seen xs) = set seen \<union> set xs"
  by (induction xs arbitrary: seen) auto

lemma distinct_uniqInto: "distinct seen \<Longrightarrow> distinct (uniqInto seen xs)"
  by (induction xs arbitrary: seen) auto

lemma set_uniq: "set (uniq xs) = set xs"
  by (simp add: uniq_def set_uniqInto)

lemma distinct_uniq: "distinct (uniq xs)"
  by (simp add: uniq_def distinct_uniqInto)

lemma entries_append: "entries (d1 @ d2) = entries d1 \<union> entries d2"
  by (auto simp: entries_def)

lemma shapesOf_entries: "shapesOf (map snd dict) = snd ` entries dict"
  by (force simp: shapesOf_def entries_def)

lemma getOrCreate_entries: "entries (getOrCreate category dict) = entries dict"
  by (simp add: getOrCreate_def Let_def entries_append) (simp add: entries_def)

lemma getOrCreate_keys:
  "fst ` set (getOrCreate category dict) =
     fst ` set dict \<union> (if jsToString category \<in> set objectPrototypeKeys then {} else {jsToString category})"
  by (auto simp: getOrCreate_def Let_def map_of_eq_None_iff dest: weak_map_of_SomeI)

lemma getOrCreate_ok: "dictOk dict \<Longrightarrow> dictOk (getOrCreate category dict)"
  by (auto simp: getOrCreate_def Let_def dictOk_def map_of_eq_None_iff)

lemma pushShapeId_keys: "pushShapeId key sid dict = Inr dict' \<Longrightarrow> map fst dict' = map fst dict"
  by (auto simp: pushShapeId_def split: if_splits)

lemma pushShapeId_ok:
  assumes "pushShapeId key sid dict = Inr dict'" and "dictOk dict"
  shows "dictOk dict'"
proof -
  have keys: "map fst dict' = map fst dict"
    using assms(1) by (rule pushShapeId_keys)
  have d: "dict' = map (\<lambda>(k, c). if k = key then (k, c\<lparr>shapeIds := shapeIds c @ [sid]\<rparr>) else (k, c)) dict"
    using assms(1) by (auto simp: pushShapeId_def split: if_splits)
  let ?f = "\<lambda>(k, c). if k = key then (k, c\<lparr>shapeIds := shapeIds c @ [sid]\<rparr>) else (k, c)"
  have "fst (?f kc) = jsToString (name (snd (?f kc))) \<and> fst (?f kc) \<notin> set objectPrototypeKeys"
    if "kc \<in> set dict" for kc
  proof -
    obtain k c where kc: "kc = (k, c)" by (cases kc)
    show ?thesis using that assms(2) by (auto simp: kc dictOk_def list_all_iff)
  qed
  then have "list_all (\<lambda>kc. fst kc = jsToString (name (snd kc)) \<and> fst kc \<notin> set objectPrototypeKeys) dict'"
    unfolding d list_all_iff by (metis (no_types, lifting) imageE list.set_map)
  then show ?thesis
    using assms(2) keys by (simp add: dictOk_def)
qed

lemma pushShapeId_entries:
  "pushShapeId key sid dict = Inr dict' \<Longrightarrow> key \<in> fst ` set dict
     \<Longrightarrow> entries dict' = insert (key, sid) (entries dict)"
  by (auto simp: pushShapeId_def entries_def split: if_splits) force+

lemma pushShapeId_proto: "key \<in> set objectPrototypeKeys \<Longrightarrow> pushShapeId key sid dict = Inl TypeError"
  by (simp add: pushShapeId_def)


lemma pushVisibleChildren_entries:
  assumes "pushVisibleChildren m key children dict = Inr dict'"
    and "key \<in> fst ` set dict \<or> key \<in> set objectPrototypeKeys"
    and "dictOk dict"
  shows "entries dict' =
           entries dict \<union> {key} \<times> set (map (createShapeId (modelId m))
              (filter (\<lambda>child. hasVisibleFragments m child = Inr True) children))
         \<and> dictOk dict' \<and> map fst dict' = map fst dict"
  using assms
proof (induction children arbitrary: dict)
  case Nil
  then show ?case by simp
next
  case (Cons child rest)
  from Cons.prems(1) obtain visible where v: "hasVisibleFragments m child = Inr visible"
    by (cases "hasVisibleFragments m child") auto
  show ?case
  proof (cases visible)
    case True
    from Cons.prems(1) v True obtain d1
      where d1: "pushShapeId key (createShapeId (modelId m) child) dict = Inr d1"
        and r: "pushVisibleChildren m key rest d1 = Inr dict'"
      by (cases "pushShapeId key (createShapeId (modelId m) child) dict") auto
    have notproto: "key \<notin> set objectPrototypeKeys"
      using d1 by (auto simp: pushShapeId_def split: if_splits)
    then have inkeys: "key \<in> fst ` set dict"
      using Cons.prems(2) by simp
    have k1: "map fst d1 = map fst dict" using d1 by (rule pushShapeId_keys)
    then have "set (map fst d1) = set (map fst dict)" by simp
    then have inkeys1: "key \<in> fst ` set d1" using inkeys by simp
    have ok1: "dictOk d1" using d1 Cons.prems(3) by (rule pushShapeId_ok)
    have e1: "entries d1 = insert (key, createShapeId (modelId m) child) (entries dict)"
      using d1 inkeys by (rule pushShapeId_entries)
    from Cons.IH [OF r _ ok1] inkeys1
    have "entries dict' =
            entries d1 \<union> {key} \<times> set (map (createShapeId (modelId m))
              (filter (\<lambda>child. hasVisibleFragments m child = Inr True) rest))
          \<and> dictOk dict' \<and> map fst dict' = map fst d1"
      by simp
    then show ?thesis using e1 k1 v True by auto
  next
    case False
    from Cons.prems(1) v False have r: "pushVisibleChildren m key rest dict = Inr dict'"
      by simp
    from Cons.IH [OF r Cons.prems(2) Cons.prems(3)] show ?thesis
      using v False by simp
  qed
qed

lemma processItem_entries:
  assumes "processItem m sa item dict = Inr dict'" and "dictOk dict"
  shows "entries dict' = entries dict \<union> filed sa m item \<and> dictOk dict'"
proof -
  from assms(1) obtain p ps where props: "properties item = p # ps"
    by (cases "properties item") (auto simp: processItem_def)
  let ?key = "jsToString (displayValue p)"
  let ?d = "getOrCreate (displayValue p) dict"
  have ckey: "categoryKey item = Some ?key"
    by (simp add: categoryKey_def props)
  have okd: "dictOk ?d" using assms(2) by (rule getOrCreate_ok)
  have ed: "entries ?d = entries dict" by (rule getOrCreate_entries)
  have keyd: "?key \<in> fst ` set ?d \<or> ?key \<in> set objectPrototypeKeys"
    by (auto simp: getOrCreate_keys)
  show ?thesis
  proof (cases sa)
    case True
    from assms(1) props True obtain tree where tree: "getInstanceTree m = Some tree"
      by (cases "getInstanceTree m") (auto simp: processItem_def Let_def)
    from assms(1) props True tree
    have "pushVisibleChildren m ?key (enumNodeChildren tree (propResult.dbId item) True) ?d = Inr dict'"
      by (simp add: processItem_def Let_def)
    from pushVisibleChildren_entries [OF this keyd okd] show ?thesis
      using ed ckey True tree
      by (simp add: filed_def contribution_def visibleChildren_def)
  next
    case False
    from assms(1) props False
    have push: "pushShapeId ?key (createShapeId (modelId m) (propResult.dbId item)) ?d = Inr dict'"
      by (simp add: processItem_def Let_def)
    then have "?key \<notin> set objectPrototypeKeys"
      by (auto simp: pushShapeId_def split: if_splits)
    then have "?key \<in> fst ` set ?d" using keyd by simp
    from pushShapeId_entries [OF push this] pushShapeId_ok [OF push okd] show ?thesis
      using ed ckey False by (simp add: filed_def contribution_def)
  qed
qed

lemma onDone_entries:
  assumes "onDone m sa result dict = Inr dict'" and "dictOk dict"
  shows "entries dict' = entries dict \<union> (\<Union>item \<in> set result. filed sa m item) \<and> dictOk dict'"
  using assms
proof (induction result arbitrary: dict)
  case Nil
  then show ?case by simp
next
  case (Cons item rest)
  from Cons.prems(1) obtain d1 where d1: "processItem m sa item dict = Inr d1"
    and r: "onDone m sa rest d1 = Inr dict'"
    by (cases "processItem m sa item dict") auto
  from processItem_entries [OF d1 Cons.prems(2)]
  have e1: "entries d1 = entries dict \<union> filed sa m item" and ok1: "dictOk d1" by simp_all
  from Cons.IH [OF r ok1] show ?case using e1 by auto
qed

lemma runCallbacks_entries:
  assumes "runCallbacks sa qs dict = Some dict'" and "dictOk dict"
  shows "entries dict' =
           entries dict \<union> (\<Union>q \<in> set qs. \<Union>item \<in> set (answerOf q). filed sa (fst q) item)
         \<and> dictOk dict' \<and> list_all (\<lambda>q. snd (snd q) \<noteq> None) qs"
  using assms
proof (induction qs arbitrary: dict)
  case Nil
  then show ?case by simp
next
  case (Cons q rest)
  obtain m dbIds answer where q: "q = (m, dbIds, answer)" by (cases q)
  from Cons.prems(1) q obtain result where a: "answer = Some result"
    by (cases answer) auto
  from Cons.prems(1) q a obtain d1 where d1: "onDone m sa result dict = Inr d1"
    and r: "runCallbacks sa rest d1 = Some dict'"
    by (cases "onDone m sa result dict") auto
  from onDone_entries [OF d1 Cons.prems(2)]
  have e1: "entries d1 = entries dict \<union> (\<Union>item \<in> set result. filed sa m item)"
    and ok1: "dictOk d1" by simp_all
  from Cons.IH [OF r ok1] show ?case using e1 q a by (auto simp: answerOf_def)
qed

lemma set_completions:
  assumes "list_all (\<lambda>i. i \<in> set order) [0 ..< length qs]"
  shows "set (completions order qs) = set qs"
proof -
  have "set (uniq (filter (\<lambda>i. i < length qs) order)) = {0 ..< length qs}"
    using assms by (auto simp: set_uniq list_all_iff)
  then have "set (completions order qs) = (\<lambda>i. qs ! i) ` {0 ..< length qs}"
    by (simp add: completions_def)
  also have "\<dots> = set qs"
    by (auto simp: set_conv_nth)
  finally show ?thesis .
qed

lemma snd_filed: "snd ` filed sa m item \<subseteq> set (contribution sa m item)"
  by (auto simp: filed_def split: option.splits)


lemma processItem_keyed: "processItem m sa item dict = Inr dict' \<Longrightarrow> categoryKey item \<noteq> None"
  by (cases "properties item") (auto simp: processItem_def categoryKey_def)

lemma onDone_keyed:
  "onDone m sa result dict = Inr dict' \<Longrightarrow> list_all (\<lambda>item. categoryKey item \<noteq> None) result"
proof (induction result arbitrary: dict)
  case Nil
  then show ?case by simp
next
  case (Cons item rest)
  from Cons.prems obtain d1 where d1: "processItem m sa item dict = Inr d1"
    and r: "onDone m sa rest d1 = Inr dict'"
    by (cases "processItem m sa item dict") auto
  from processItem_keyed [OF d1] Cons.IH [OF r] show ?case by simp
qed

lemma runCallbacks_keyed:
  "runCallbacks sa qs dict = Some dict'
     \<Longrightarrow> list_all (\<lambda>q. list_all (\<lambda>item. categoryKey item \<noteq> None) (answerOf q)) qs"
proof (induction qs arbitrary: dict)
  case Nil
  then show ?case by simp
next
  case (Cons q rest)
  obtain m dbIds answer where q: "q = (m, dbIds, answer)" by (cases q)
  from Cons.prems q obtain result where a: "answer = Some result"
    by (cases answer) auto
  from Cons.prems q a obtain d1 where d1: "onDone m sa result dict = Inr d1"
    and r: "runCallbacks sa rest d1 = Some dict'"
    by (cases "onDone m sa result dict") auto
  from onDone_keyed [OF d1] Cons.IH [OF r] show ?case
    using q a by (simp add: answerOf_def)
qed

lemma snd_filed_keyed:
  "categoryKey item \<noteq> None \<Longrightarrow> snd ` filed sa m item = set (contribution sa m item)"
  by (auto simp: filed_def)

lemma dictOk_empty: "dictOk []"
  by (simp add: dictOk_def)

lemma entries_empty: "entries [] = {}"
  by (simp add: entries_def)

lemma issueQueries_models:
  "issueQueries this models attr = (this', Inr qs) \<Longrightarrow> map fst qs = models"
proof (induction models arbitrary: this this' qs)
  case Nil
  then show ?case by simp
next
  case (Cons m rest)
  from Cons.prems obtain t1 dbIds where f: "findActualLeafNodes this m True True = (t1, Inr dbIds)"
    by (cases "findActualLeafNodes this m True True") (auto split: sum.splits)
  from Cons.prems f obtain qs' where i: "issueQueries t1 rest attr = (this', Inr qs')"
    and q: "qs = (m, dbIds, getBulkProperties2 m dbIds attr) # qs'"
    by (cases "issueQueries t1 rest attr") (auto split: sum.splits)
  from Cons.IH [OF i] q show ?case by simp
qed

subsection \<open>A resolved build\<close>

lemma build_resolved:
  assumes "buildClustersFromAttribute this models attribName searchAncestors order = (this', Resolved clusters)"
  obtains qs dict where
    "issueQueries this models (attribOf attribName) = (this', Inr qs)"
    "set (completions order qs) = set qs"
    "runCallbacks (expandOf searchAncestors) (completions order qs) [] = Some dict"
    "clusters = map snd dict"
proof -
  obtain t r where i: "issueQueries this models (attribOf attribName) = (t, r)"
    by (cases "issueQueries this models (attribOf attribName)")
  from assms i obtain qs where r: "r = Inr qs"
    by (cases r) (auto simp: buildClustersFromAttribute_def)
  from assms i r have all: "list_all (\<lambda>i. i \<in> set order) [0 ..< length qs]"
    by (auto simp: buildClustersFromAttribute_def split: if_splits)
  from assms i r all obtain dict where
    d: "runCallbacks (expandOf searchAncestors) (completions order qs) [] = Some dict"
    and c: "clusters = map snd dict" and t: "t = this'"
    by (cases "runCallbacks (expandOf searchAncestors) (completions order qs) []")
       (auto simp: buildClustersFromAttribute_def)
  show ?thesis
    using that [of qs dict] i r t d c set_completions [OF all] by simp
qed

lemma build_shapes:
  assumes "buildClustersFromAttribute this models attribName searchAncestors order = (this', Resolved clusters)"
    and "issueQueries this models (attribOf attribName) = (this'', Inr qs)"
  shows "shapesOf clusters = contributions (expandOf searchAncestors) qs"
proof -
  from assms(1) obtain qs' dict where
    i: "issueQueries this models (attribOf attribName) = (this', Inr qs')"
    and s: "set (completions order qs') = set qs'"
    and d: "runCallbacks (expandOf searchAncestors) (completions order qs') [] = Some dict"
    and c: "clusters = map snd dict"
    by (rule build_resolved)
  from i assms(2) have qs: "qs' = qs" by simp
  let ?sa = "expandOf searchAncestors"
  from runCallbacks_entries [OF d dictOk_empty]
  have e: "entries dict = (\<Union>q \<in> set qs. \<Union>item \<in> set (answerOf q). filed ?sa (fst q) item)"
    using s qs by (simp add: entries_empty)
  from runCallbacks_keyed [OF d]
  have k: "categoryKey item \<noteq> None" if "q \<in> set qs" "item \<in> set (answerOf q)" for q item
    using that s qs by (auto simp: list_all_iff)
  have "snd ` entries dict = (\<Union>q \<in> set qs. \<Union>item \<in> set (answerOf q). snd ` filed ?sa (fst q) item)"
    unfolding e by (simp add: image_UN)
  also have "\<dots> = (\<Union>q \<in> set qs. \<Union>item \<in> set (answerOf q). set (contribution ?sa (fst q) item))"
    using k by (simp add: snd_filed_keyed)
  finally show ?thesis
    by (simp add: c shapesOf_entries contributions_def)
qed

lemma build_entries:
  assumes "buildClustersFromAttribute this models attribName searchAncestors order = (this', Resolved clusters)"
    and "issueQueries this models (attribOf attribName) = (this'', Inr qs)"
  obtains dict where
    "clusters = map snd dict"
    "dictOk dict"
    "entries dict = (\<Union>q \<in> set qs. \<Union>item \<in> set (answerOf q). filed (expandOf searchAncestors) (fst q) item)"
proof -
  from assms(1) obtain qs' dict where
    i: "issueQueries this models (attribOf attribName) = (this', Inr qs')"
    and s: "set (completions order qs') = set qs'"
    and d: "runCallbacks (expandOf searchAncestors) (completions order qs') [] = Some dict"
    and c: "clusters = map snd dict"
    by (rule build_resolved)
  from i assms(2) have qs: "qs' = qs" by simp
  from runCallbacks_entries [OF d dictOk_empty] show ?thesis
    using that [of dict] c s qs by (simp add: entries_empty)
qed

lemma contributions_plain:
  "contributions False qs =
     (\<Union>q \<in> set qs. {modelId (fst q)} \<times> propResult.dbId ` set (answerOf q))"
  by (auto simp: contributions_def contribution_def createShapeId_def)






lemma filed_mem:
  "(key, sid) \<in> filed sa m item
     \<Longrightarrow> categoryKey item = Some key \<and> sid \<in> set (contribution sa m item)"
  by (auto simp: filed_def split: option.splits)






subsection \<open>Failed queries\<close>

lemma runCallbacks_unanswered:
  "(m, dbIds, None) \<in> set qs \<Longrightarrow> runCallbacks sa qs dict = None"
proof (induction qs arbitrary: dict)
  case Nil
  then show ?case by simp
next
  case (Cons q rest)
  obtain m' dbIds' answer where q: "q = (m', dbIds', answer)" by (cases q)
  show ?case
  proof (cases answer)
    case None
    then show ?thesis using q by simp
  next
    case (Some result)
    show ?thesis
    proof (cases "onDone m' sa result dict")
      case (Inl e)
      then show ?thesis using q Some by simp
    next
      case (Inr d1)
      from Cons.prems q Some have "(m, dbIds, None) \<in> set rest" by auto
      from Cons.IH [OF this] show ?thesis using q Some Inr by simp
    qed
  qed
qed

text \<open>
  C2. A failure of the leaf resolver's property query makes the build reject. A failure of
  the attribute query of the build itself does not: the promise of that query has no
  path to \<open>reject\<close>, it never settles, and so the build never settles either. In both
  cases the build hands out no clusters.
\<close>

theorem failed_query_never_settles:
  "(issueQueries this models (attribOf attribName) = (this', Inl e)
      \<longrightarrow> buildClustersFromAttribute this models attribName searchAncestors order
            = (this', Rejected e))
   \<and> (issueQueries this models (attribOf attribName) = (this', Inr qs)
        \<and> (m, dbIds, None) \<in> set qs
      \<longrightarrow> buildClustersFromAttribute this models attribName searchAncestors order
            = (this', Pending))"
proof -
  have "buildClustersFromAttribute this models attribName searchAncestors order = (this', Pending)"
    if i: "issueQueries this models (attribOf attribName) = (this', Inr qs)"
      and u: "(m, dbIds, None) \<in> set qs"
  proof (cases "list_all (\<lambda>i. i \<in> set order) [0 ..< length qs]")
    case True
    then have "set (completions order qs) = set qs" by (rule set_completions)
    with u have "(m, dbIds, None) \<in> set (completions order qs)" by simp
    then have "runCallbacks (expandOf searchAncestors) (completions order qs) [] = None"
      by (rule runCallbacks_unanswered)
    then show ?thesis using i True by (simp add: buildClustersFromAttribute_def)
  next
    case False
    then show ?thesis using i by (simp add: buildClustersFromAttribute_def)
  qed
  then show ?thesis by (simp add: buildClustersFromAttribute_def)
qed

text \<open>
  The house when the attribute query fails, and when the leaf resolver's query fails.
\<close>

theorem failed_query_never_settles_witness:
  "issueQueries newBase [unansweredScene] (attribOf None)
     = (houseLeaves, Inr [(unansweredScene, [Num 2, Num 3], None)])
   \<and> buildClustersFromAttribute newBase [unansweredScene] None None [0]
     = (houseLeaves, Pending)
   \<and> issueQueries newBase [houseScene\<lparr>getBulkProperties := (\<lambda>ids. Inl (HostError 5))\<rparr>]
        (attribOf None) = (newBase, Inl (HostError 5))
   \<and> buildClustersFromAttribute newBase
        [houseScene\<lparr>getBulkProperties := (\<lambda>ids. Inl (HostError 5))\<rparr>] None None [0]
     = (newBase, Rejected (HostError 5))"
proof -
  have i: "issueQueries newBase [unansweredScene] (attribOf None)
     = (houseLeaves, Inr [(unansweredScene, [Num 2, Num 3], None)])"
    by (simp add: scene_defs build_defs houseLeaves_def unansweredScene_def)
  have j: "issueQueries newBase [houseScene\<lparr>getBulkProperties := (\<lambda>ids. Inl (HostError 5))\<rparr>]
        (attribOf None) = (newBase, Inl (HostError 5))"
    by (simp add: scene_defs build_defs)
  from failed_query_never_settles
    [of newBase "[unansweredScene]" None houseLeaves _
        None "[0]" "[(unansweredScene, [Num 2, Num 3], None)]" unansweredScene "[Num 2, Num 3]"] i
  have a: "buildClustersFromAttribute newBase [unansweredScene] None None [0] = (houseLeaves, Pending)"
    by simp
  from failed_query_never_settles
    [of newBase "[houseScene\<lparr>getBulkProperties := (\<lambda>ids. Inl (HostError 5))\<rparr>]" None newBase
        "HostError 5" None "[0]"] j
  have b: "buildClustersFromAttribute newBase
        [houseScene\<lparr>getBulkProperties := (\<lambda>ids. Inl (HostError 5))\<rparr>] None None [0]
     = (newBase, Rejected (HostError 5))"
    by simp
  from i j a b show ?thesis by blast
qed

subsection \<open>Visible fragments\<close>

lemma contributions_model:
  assumes "sid \<in> contributions sa qs"
  shows "\<exists>q \<in> set qs. fst sid = modelId (fst q)"
proof -
  from assms obtain q item where q: "q \<in> set qs"
    and s: "sid \<in> set (contribution sa (fst q) item)"
    by (auto simp: contributions_def)
  from s have "fst sid = modelId (fst q)"
    by (auto simp: contribution_def createShapeId_def split: if_splits)
  with q show ?thesis by blast
qed

lemma contributions_visible:
  assumes "sid \<in> contributions True qs"
  shows "\<exists>q \<in> set qs. fst sid = modelId (fst q)
           \<and> hasVisibleFragments (fst q) (snd sid) = Inr True"
proof -
  from assms obtain q item where q: "q \<in> set qs"
    and s: "sid \<in> set (contribution True (fst q) item)"
    by (auto simp: contributions_def)
  from s have "fst sid = modelId (fst q) \<and> hasVisibleFragments (fst q) (snd sid) = Inr True"
    by (auto simp: contribution_def createShapeId_def visibleChildren_def split: option.splits)
  with q show ?thesis by blast
qed

lemma visitFragments_True:
  "visitFragments fragList frags True
     = (\<not> (\<exists>f \<in> set frags. \<not> isNotLoaded fragList f \<and> isFragVisible fragList f))"
  by (induction frags) (auto simp: Let_def)

text \<open>
  C9. \<open>hasVisibleFragments\<close> answers \<open>true\<close> exactly when the element has a fragment
  that is loaded and visible; on a model with an instance tree it answers \<open>false\<close>
  otherwise, in particular for an element without fragments. With descendant expansion,
  every shape id in a cluster of a resolved build is an element of one of the models for
  which \<open>hasVisibleFragments\<close> answers \<open>true\<close>.
\<close>

theorem hasVisibleFragments_iff:
  "(hasVisibleFragments m d = Inr True \<longleftrightarrow>
      (\<exists>it. getInstanceTree m = Some it
         \<and> (\<exists>f \<in> set (enumNodeFragments it d).
               \<not> isNotLoaded (getFragmentList m) f \<and> isFragVisible (getFragmentList m) f)))
   \<and> (getInstanceTree m = Some it \<longrightarrow>
        hasVisibleFragments m d =
          Inr (\<exists>f \<in> set (enumNodeFragments it d).
                 \<not> isNotLoaded (getFragmentList m) f \<and> isFragVisible (getFragmentList m) f))
   \<and> (buildClustersFromAttribute this models attribName searchAncestors order
          = (this', Resolved clusters) \<and> expandOf searchAncestors
        \<longrightarrow> (\<forall>sid \<in> shapesOf clusters.
               \<exists>m' \<in> set models. modelId m' = fst sid
                  \<and> hasVisibleFragments m' (snd sid) = Inr True))"
proof -
  have a: "hasVisibleFragments m d = Inr True \<longleftrightarrow>
      (\<exists>it. getInstanceTree m = Some it
         \<and> (\<exists>f \<in> set (enumNodeFragments it d).
               \<not> isNotLoaded (getFragmentList m) f \<and> isFragVisible (getFragmentList m) f))"
    by (cases "getInstanceTree m") (simp_all add: hasVisibleFragments_def visitFragments_True)
  have b: "hasVisibleFragments m d =
          Inr (\<exists>f \<in> set (enumNodeFragments it d).
                 \<not> isNotLoaded (getFragmentList m) f \<and> isFragVisible (getFragmentList m) f)"
    if "getInstanceTree m = Some it"
    using that by (simp add: hasVisibleFragments_def visitFragments_True)
  have c: "\<exists>m' \<in> set models. modelId m' = fst sid \<and> hasVisibleFragments m' (snd sid) = Inr True"
    if build: "buildClustersFromAttribute this models attribName searchAncestors order
          = (this', Resolved clusters)"
      and ex: "expandOf searchAncestors" and sid: "sid \<in> shapesOf clusters" for sid
  proof -
    from build obtain qs dict where
      i: "issueQueries this models (attribOf attribName) = (this', Inr qs)"
      by (rule build_resolved)
    from build_shapes [OF build i] sid ex have "sid \<in> contributions True qs" by simp
    then obtain q where q: "q \<in> set qs" "fst sid = modelId (fst q)"
      "hasVisibleFragments (fst q) (snd sid) = Inr True"
      by (auto dest: contributions_visible)
    from q(1) have "fst q \<in> set (map fst qs)" by force
    with issueQueries_models [OF i] have "fst q \<in> set models" by simp
    with q show ?thesis by auto
  qed
  from a b c show ?thesis by blast
qed

text \<open>
  In the house the wall has a visible fragment, the room a hidden one, and element 9
  has none.
\<close>

theorem hasVisibleFragments_iff_witness:
  "getInstanceTree houseScene = Some (flatTree [2, 3])
   \<and> hasVisibleFragments houseScene 2 = Inr True
   \<and> hasVisibleFragments houseScene 3 = Inr False
   \<and> hasVisibleFragments houseScene 9 = Inr False
   \<and> buildClustersFromAttribute newBase [houseScene] None None [0]
       = (houseLeaves,
          Resolved [\<lparr>name = Str ''Walls'', shapeIds = [(1, 2)]\<rparr>,
                    \<lparr>name = Str ''Revit Rooms'', shapeIds = []\<rparr>])
   \<and> expandOf None
   \<and> shapesOf [\<lparr>name = Str ''Walls'', shapeIds = [(1, 2)]\<rparr>,
                \<lparr>name = Str ''Revit Rooms'', shapeIds = []\<rparr>] = {(1, 2)}"
proof -
  let ?cs = "[\<lparr>name = Str ''Walls'', shapeIds = [(1, 2)]\<rparr>,
              \<lparr>name = Str ''Revit Rooms'', shapeIds = []\<rparr>]"
  have tree: "getInstanceTree houseScene = Some (flatTree [2, 3])"
    by (simp add: houseScene_def flatScene_def)
  have ex: "expandOf None" by (simp add: expandOf_def)
  have v: "hasVisibleFragments houseScene d =
          Inr (\<exists>f \<in> set (enumNodeFragments (flatTree [2, 3]) d).
                 \<not> isNotLoaded (getFragmentList houseScene) f
                 \<and> isFragVisible (getFragmentList houseScene) f)" for d
    using hasVisibleFragments_iff [of houseScene d "flatTree [2, 3]"] tree by blast
  have v2: "hasVisibleFragments houseScene 2 = Inr True"
    unfolding v by (simp add: houseScene_def flatScene_def flatTree_def)
  have v3: "hasVisibleFragments houseScene 3 = Inr False"
    unfolding v by (simp add: houseScene_def flatScene_def flatTree_def)
  have v9: "hasVisibleFragments houseScene 9 = Inr False"
    unfolding v by (simp add: houseScene_def flatScene_def flatTree_def)
  have s: "shapesOf ?cs = {(1, 2)}" by (simp add: shapesOf_def)
  from tree v2 v3 v9 house_expanded ex s show ?thesis by blast
qed

subsection \<open>The default layout\<close>

text \<open>
  C10. \<open>createDefaultLayout\<close> gives the same result as on the supported models alone. A
  layout it resolves with is computed from the clusters of the build over the supported
  models (3D, with an instance tree) without the clusters named \<open>Revit Topography\<close>,
  \<open>Revit Rooms\<close> and \<open>Revit <Sketch>\<close> and with every other cluster, and every shape id
  in the clusters handed to the layout belongs to a supported model.
\<close>

theorem createDefaultLayout_filters:
  "createDefaultLayout layoutOf this models align attribName searchAncestors order
     = createDefaultLayout layoutOf this (filter modelSupported models) align attribName
         searchAncestors order
   \<and> (createDefaultLayout layoutOf this models align attribName searchAncestors order
         = (this', Resolved layout)
      \<longrightarrow> (\<exists>clusters.
             buildClustersFromAttribute this (filter modelSupported models) attribName
               searchAncestors order = (this', Resolved clusters)
           \<and> layout = layoutOf (filter clusterFilter clusters) (filter modelSupported models) align
           \<and> (\<forall>c \<in> set (filter clusterFilter clusters).
                 name c \<noteq> Str ''Revit Topography'' \<and> name c \<noteq> Str ''Revit Rooms''
                 \<and> name c \<noteq> Str ''Revit <Sketch>'')
           \<and> (\<forall>c \<in> set clusters.
                 name c \<noteq> Str ''Revit Topography'' \<and> name c \<noteq> Str ''Revit Rooms''
                 \<and> name c \<noteq> Str ''Revit <Sketch>''
                 \<longrightarrow> c \<in> set (filter clusterFilter clusters))
           \<and> (\<forall>m \<in> set (filter modelSupported models). is3d m \<and> getInstanceTree m \<noteq> None)
           \<and> (\<forall>sid \<in> shapesOf (filter clusterFilter clusters).
                 \<exists>m \<in> set models. is3d m \<and> getInstanceTree m \<noteq> None \<and> modelId m = fst sid)))"
proof -
  let ?ms = "filter modelSupported models"
  have idem: "createDefaultLayout layoutOf this models align attribName searchAncestors order
     = createDefaultLayout layoutOf this ?ms align attribName searchAncestors order"
    by (simp add: createDefaultLayout_def)
  have rest: "\<exists>clusters.
             buildClustersFromAttribute this ?ms attribName searchAncestors order
               = (this', Resolved clusters)
           \<and> layout = layoutOf (filter clusterFilter clusters) ?ms align
           \<and> (\<forall>c \<in> set (filter clusterFilter clusters).
                 name c \<noteq> Str ''Revit Topography'' \<and> name c \<noteq> Str ''Revit Rooms''
                 \<and> name c \<noteq> Str ''Revit <Sketch>'')
           \<and> (\<forall>c \<in> set clusters.
                 name c \<noteq> Str ''Revit Topography'' \<and> name c \<noteq> Str ''Revit Rooms''
                 \<and> name c \<noteq> Str ''Revit <Sketch>''
                 \<longrightarrow> c \<in> set (filter clusterFilter clusters))
           \<and> (\<forall>m \<in> set ?ms. is3d m \<and> getInstanceTree m \<noteq> None)
           \<and> (\<forall>sid \<in> shapesOf (filter clusterFilter clusters).
                 \<exists>m \<in> set models. is3d m \<and> getInstanceTree m \<noteq> None \<and> modelId m = fst sid)"
    if r: "createDefaultLayout layoutOf this models align attribName searchAncestors order
         = (this', Resolved layout)"
  proof -
    obtain t out where b: "buildClustersFromAttribute this ?ms attribName searchAncestors order = (t, out)"
      by (cases "buildClustersFromAttribute this ?ms attribName searchAncestors order")
    from r b obtain clusters where out: "out = Resolved clusters" and t: "t = this'"
      and l: "layout = layoutOf (filter clusterFilter clusters) ?ms align"
      by (cases out) (auto simp: createDefaultLayout_def Let_def)
    have build: "buildClustersFromAttribute this ?ms attribName searchAncestors order
        = (this', Resolved clusters)"
      using b out t by simp
    from build obtain qs dict where
      i: "issueQueries this ?ms (attribOf attribName) = (this', Inr qs)"
      by (rule build_resolved)
    have shapes: "\<exists>m \<in> set models. is3d m \<and> getInstanceTree m \<noteq> None \<and> modelId m = fst sid"
      if "sid \<in> shapesOf (filter clusterFilter clusters)" for sid
    proof -
      from that have "sid \<in> shapesOf clusters" by (auto simp: shapesOf_def)
      with build_shapes [OF build i] obtain q where q: "q \<in> set qs" "fst sid = modelId (fst q)"
        by (auto dest: contributions_model)
      from q(1) have "fst q \<in> set (map fst qs)" by force
      with issueQueries_models [OF i] have "fst q \<in> set ?ms" by simp
      then show ?thesis using q(2) by (auto simp: modelSupported_def)
    qed
    show ?thesis
      using build l shapes by (auto simp: clusterFilter_def modelSupported_def)
  qed
  from idem rest show ?thesis by blast
qed

text \<open>
  A 2D sheet beside the house: the layout is computed from the house alone and without
  the cluster \<open>Revit Rooms\<close>.
\<close>

theorem createDefaultLayout_filters_witness:
  "filter modelSupported [sheetScene, houseScene] = [houseScene]
   \<and> createDefaultLayout describe newBase [sheetScene, houseScene] True None (Some False) [0]
       = (houseLeaves, Resolved ([\<lparr>name = Str ''Walls'', shapeIds = [(1, 2)]\<rparr>], [1], True))
   \<and> buildClustersFromAttribute newBase [houseScene] None (Some False) [0]
       = (houseLeaves,
          Resolved [\<lparr>name = Str ''Walls'', shapeIds = [(1, 2)]\<rparr>,
                    \<lparr>name = Str ''Revit Rooms'', shapeIds = [(1, 3)]\<rparr>])"
proof -
  have f: "filter modelSupported [sheetScene, houseScene] = [houseScene]"
    by (simp add: modelSupported_def sheetScene_def houseScene_def flatScene_def)
  have "createDefaultLayout describe newBase [houseScene] True None (Some False) [0]
       = (houseLeaves, Resolved ([\<lparr>name = Str ''Walls'', shapeIds = [(1, 2)]\<rparr>], [1], True))"
    using f house_plain
    by (simp add: createDefaultLayout_def describe_def clusterFilter_def modelSupported_def)
       (simp add: houseScene_def flatScene_def)
  with createDefaultLayout_filters [of describe newBase "[sheetScene, houseScene]" True None "Some False" "[0]"] f
  have "createDefaultLayout describe newBase [sheetScene, houseScene] True None (Some False) [0]
       = (houseLeaves, Resolved ([\<lparr>name = Str ''Walls'', shapeIds = [(1, 2)]\<rparr>], [1], True))"
    by simp
  with f house_plain show ?thesis by blast
qed

subsection \<open>Elements without the attribute\<close>

lemma getOrCreate_names: "namesIn (getOrCreate category dict) \<subseteq> insert category (namesIn dict)"
  by (auto simp: getOrCreate_def Let_def namesIn_def)

lemma pushShapeId_names: "pushShapeId key sid dict = Inr dict' \<Longrightarrow> namesIn dict' = namesIn dict"
proof -
  assume "pushShapeId key sid dict = Inr dict'"
  then have d: "dict' = map (\<lambda>(k, c). if k = key then (k, c\<lparr>shapeIds := shapeIds c @ [sid]\<rparr>) else (k, c)) dict"
    by (auto simp: pushShapeId_def split: if_splits)
  have n: "name (snd ((\<lambda>(k, c). if k = key then (k, c\<lparr>shapeIds := shapeIds c @ [sid]\<rparr>) else (k, c)) kc))
      = name (snd kc)" for kc
    by (cases kc) simp
  show ?thesis
    unfolding d namesIn_def by (simp add: image_image n)
qed

lemma pushVisibleChildren_names:
  "pushVisibleChildren m key children dict = Inr dict' \<Longrightarrow> namesIn dict' = namesIn dict"
proof (induction children arbitrary: dict)
  case Nil
  then show ?case by simp
next
  case (Cons child rest)
  from Cons.prems obtain visible where v: "hasVisibleFragments m child = Inr visible"
    by (cases "hasVisibleFragments m child") auto
  show ?case
  proof (cases visible)
    case True
    from Cons.prems v True obtain d1
      where d1: "pushShapeId key (createShapeId (modelId m) child) dict = Inr d1"
        and r: "pushVisibleChildren m key rest d1 = Inr dict'"
      by (cases "pushShapeId key (createShapeId (modelId m) child) dict") auto
    from Cons.IH [OF r] pushShapeId_names [OF d1] show ?thesis by simp
  next
    case False
    with Cons.prems v have "pushVisibleChildren m key rest dict = Inr dict'" by simp
    then show ?thesis by (rule Cons.IH)
  qed
qed

lemma processItem_names:
  assumes "processItem m sa item dict = Inr dict'"
  shows "\<exists>v. categoryOf item = Some v \<and> namesIn dict' \<subseteq> insert v (namesIn dict)"
proof -
  from assms obtain p ps where props: "properties item = p # ps"
    by (cases "properties item") (auto simp: processItem_def)
  let ?key = "jsToString (displayValue p)"
  let ?d = "getOrCreate (displayValue p) dict"
  have "namesIn dict' = namesIn ?d"
  proof (cases sa)
    case True
    from assms props True obtain tree where tree: "getInstanceTree m = Some tree"
      by (cases "getInstanceTree m") (auto simp: processItem_def Let_def)
    from assms props True tree
    have "pushVisibleChildren m ?key (enumNodeChildren tree (propResult.dbId item) True) ?d = Inr dict'"
      by (simp add: processItem_def Let_def)
    then show ?thesis by (rule pushVisibleChildren_names)
  next
    case False
    from assms props False
    have "pushShapeId ?key (createShapeId (modelId m) (propResult.dbId item)) ?d = Inr dict'"
      by (simp add: processItem_def Let_def)
    then show ?thesis by (rule pushShapeId_names)
  qed
  with getOrCreate_names [of "displayValue p" dict] props show ?thesis
    by (simp add: categoryOf_def)
qed

lemma onDone_names:
  "onDone m sa result dict = Inr dict'
     \<Longrightarrow> namesIn dict' \<subseteq> namesIn dict \<union> {v. \<exists>item \<in> set result. categoryOf item = Some v}"
proof (induction result arbitrary: dict)
  case Nil
  then show ?case by simp
next
  case (Cons item rest)
  from Cons.prems obtain d1 where d1: "processItem m sa item dict = Inr d1"
    and r: "onDone m sa rest d1 = Inr dict'"
    by (cases "processItem m sa item dict") auto
  from processItem_names [OF d1] obtain v where "categoryOf item = Some v"
    and "namesIn d1 \<subseteq> insert v (namesIn dict)" by blast
  with Cons.IH [OF r] show ?case by auto
qed

lemma runCallbacks_names:
  "runCallbacks sa qs dict = Some dict'
     \<Longrightarrow> namesIn dict' \<subseteq> namesIn dict
           \<union> {v. \<exists>q \<in> set qs. \<exists>item \<in> set (answerOf q). categoryOf item = Some v}"
proof (induction qs arbitrary: dict)
  case Nil
  then show ?case by simp
next
  case (Cons q rest)
  obtain m dbIds answer where q: "q = (m, dbIds, answer)" by (cases q)
  from Cons.prems q obtain result where a: "answer = Some result"
    by (cases answer) auto
  from Cons.prems q a obtain d1 where d1: "onDone m sa result dict = Inr d1"
    and r: "runCallbacks sa rest d1 = Some dict'"
    by (cases "onDone m sa result dict") auto
  have "answerOf q = result" using q a by (simp add: answerOf_def)
  with onDone_names [OF d1] Cons.IH [OF r] show ?case by auto
qed

lemma pushVisibleChildren_total:
  assumes "key \<notin> set objectPrototypeKeys" and "getInstanceTree m \<noteq> None"
  shows "\<exists>dict'. pushVisibleChildren m key children dict = Inr dict'"
proof (induction children arbitrary: dict)
  case Nil
  then show ?case by simp
next
  case (Cons child rest)
  from assms(2) obtain visible where v: "hasVisibleFragments m child = Inr visible"
    by (auto simp: hasVisibleFragments_def)
  from assms(1) obtain d1 where d1: "pushShapeId key (createShapeId (modelId m) child) dict = Inr d1"
    by (simp add: pushShapeId_def)
  from Cons.IH [of d1] Cons.IH [of dict] show ?case
    using v d1 by (cases visible) simp_all
qed

lemma processItem_total:
  assumes "wellKeyed item" and "sa \<longrightarrow> getInstanceTree m \<noteq> None"
  shows "\<exists>dict'. processItem m sa item dict = Inr dict'"
proof -
  from assms(1) obtain p ps where props: "properties item = p # ps"
    and key: "jsToString (displayValue p) \<notin> set objectPrototypeKeys"
    by (cases "properties item") (auto simp: wellKeyed_def categoryKey_def)
  show ?thesis
  proof (cases sa)
    case True
    with assms(2) obtain tree where tree: "getInstanceTree m = Some tree" by auto
    from pushVisibleChildren_total [OF key, of m] tree show ?thesis
      using props True by (simp add: processItem_def Let_def)
  next
    case False
    then show ?thesis using props key by (simp add: processItem_def Let_def pushShapeId_def)
  qed
qed

lemma onDone_total:
  assumes "list_all wellKeyed result" and "sa \<longrightarrow> getInstanceTree m \<noteq> None"
  shows "\<exists>dict'. onDone m sa result dict = Inr dict'"
  using assms(1)
proof (induction result arbitrary: dict)
  case Nil
  then show ?case by simp
next
  case (Cons item rest)
  then have "wellKeyed item" by simp
  from processItem_total [OF this assms(2)] obtain d1
    where "processItem m sa item dict = Inr d1" by blast
  with Cons.IH [of d1] Cons.prems show ?case by simp
qed

lemma runCallbacks_total:
  assumes "list_all (answerable sa) qs"
  shows "\<exists>dict'. runCallbacks sa qs dict = Some dict'"
  using assms
proof (induction qs arbitrary: dict)
  case Nil
  then show ?case by simp
next
  case (Cons q rest)
  obtain m dbIds answer where q: "q = (m, dbIds, answer)" by (cases q)
  from Cons.prems q obtain result where a: "answer = Some result"
    and w: "list_all wellKeyed result" and t: "sa \<longrightarrow> getInstanceTree m \<noteq> None"
    by (auto simp: answerable_def answerOf_def)
  from onDone_total [OF w t] obtain d1 where "onDone m sa result dict = Inr d1" by blast
  with Cons.IH [of d1] Cons.prems q a show ?case by simp
qed

lemma completions_subset: "set (completions order qs) \<subseteq> set qs"
  by (auto simp: completions_def set_uniq)

lemma cluster_members:
  assumes build: "buildClustersFromAttribute this models attribName searchAncestors order = (this', Resolved clusters)"
    and qs: "issueQueries this models (attribOf attribName) = (this'', Inr qs)"
    and c: "c \<in> set clusters" and sid: "sid \<in> set (shapeIds c)"
  shows "\<exists>q \<in> set qs. \<exists>item \<in> set (answerOf q).
           categoryKey item = Some (jsToString (name c))
           \<and> sid \<in> set (contribution (expandOf searchAncestors) (fst q) item)"
proof -
  from build qs obtain dict where cl: "clusters = map snd dict" and ok: "dictOk dict"
    and e: "entries dict = (\<Union>q \<in> set qs. \<Union>item \<in> set (answerOf q).
              filed (expandOf searchAncestors) (fst q) item)"
    by (rule build_entries)
  from c cl obtain kc where kc: "kc \<in> set dict" and ckc: "c = snd kc" by auto
  from ok kc have key: "fst kc = jsToString (name (snd kc))"
    by (simp add: dictOk_def list_all_iff)
  from kc sid ckc have "(fst kc, sid) \<in> entries dict"
    by (auto simp: entries_def)
  with e obtain q item where q: "q \<in> set qs" and i: "item \<in> set (answerOf q)"
    and f: "(fst kc, sid) \<in> filed (expandOf searchAncestors) (fst q) item"
    by auto
  from filed_mem [OF f] key ckc q i show ?thesis by auto
qed

text \<open>
  C4. A build resolves whenever every query is answered and every answered entry has a
  first property (whose display value is not the name of an inherited object member),
  also when the answers leave out elements that were asked for. Every cluster of a
  resolved build is named by the display value of the first property of an answered
  entry, and every shape id in it is contributed by an answered entry of that category:
  with descendant expansion the clusters hold the descendants with a visible fragment of
  the answered elements, without it the answered elements themselves. An element
  without an entry has no cluster of its own; it is clustered only as such a descendant
  of an answered element.
\<close>

theorem build_without_uncategorized:
  assumes qs: "issueQueries this models (attribOf attribName) = (this', Inr qs)"
  shows "(list_all (answerable (expandOf searchAncestors)) qs
            \<and> list_all (\<lambda>i. i \<in> set order) [0 ..< length qs]
          \<longrightarrow> (\<exists>clusters. buildClustersFromAttribute this models attribName searchAncestors order
                  = (this', Resolved clusters)))
     \<and> (\<forall>clusters. buildClustersFromAttribute this models attribName searchAncestors order
            = (this', Resolved clusters)
          \<longrightarrow> (\<forall>c \<in> set clusters. \<exists>q \<in> set qs. \<exists>item \<in> set (answerOf q).
                   categoryOf item = Some (name c))
            \<and> (\<forall>c \<in> set clusters. \<forall>sid \<in> set (shapeIds c).
                   \<exists>q \<in> set qs. \<exists>item \<in> set (answerOf q).
                     categoryKey item = Some (jsToString (name c))
                     \<and> sid \<in> set (contribution (expandOf searchAncestors) (fst q) item))
            \<and> (expandOf searchAncestors
                 \<longrightarrow> shapesOf clusters
                      = (\<Union>q \<in> set qs. {modelId (fst q)}
                           \<times> (\<Union>item \<in> set (answerOf q).
                                 set (visibleChildren (fst q) (propResult.dbId item)))))
            \<and> (\<not> expandOf searchAncestors
                 \<longrightarrow> shapesOf clusters
                      = (\<Union>q \<in> set qs. {modelId (fst q)} \<times> propResult.dbId ` set (answerOf q))))"
proof -
  let ?sa = "expandOf searchAncestors"
  have total: "\<exists>clusters. buildClustersFromAttribute this models attribName searchAncestors order
                  = (this', Resolved clusters)"
    if a: "list_all (answerable ?sa) qs" and o: "list_all (\<lambda>i. i \<in> set order) [0 ..< length qs]"
  proof -
    from a completions_subset [of order qs]
    have "list_all (answerable ?sa) (completions order qs)"
      by (auto simp: list_all_iff)
    from runCallbacks_total [OF this, of "[]"] obtain dict
      where "runCallbacks ?sa (completions order qs) [] = Some dict" by blast
    then show ?thesis using qs o by (simp add: buildClustersFromAttribute_def)
  qed
  have named: "\<exists>q \<in> set qs. \<exists>item \<in> set (answerOf q). categoryOf item = Some (name c)"
    if build: "buildClustersFromAttribute this models attribName searchAncestors order
            = (this', Resolved clusters)" and c: "c \<in> set clusters" for clusters c
  proof -
    from build obtain qs' dict where
      i: "issueQueries this models (attribOf attribName) = (this', Inr qs')"
      and s: "set (completions order qs') = set qs'"
      and d: "runCallbacks ?sa (completions order qs') [] = Some dict"
      and cl: "clusters = map snd dict"
      by (rule build_resolved)
    from i qs have e: "qs' = qs" by simp
    from c cl have "name c \<in> namesIn dict" by (auto simp: namesIn_def)
    with runCallbacks_names [OF d] s e show ?thesis by (auto simp: namesIn_def)
  qed
  have members: "\<exists>q \<in> set qs. \<exists>item \<in> set (answerOf q).
                     categoryKey item = Some (jsToString (name c))
                     \<and> sid \<in> set (contribution ?sa (fst q) item)"
    if "buildClustersFromAttribute this models attribName searchAncestors order
            = (this', Resolved clusters)" "c \<in> set clusters" "sid \<in> set (shapeIds c)"
    for clusters c sid
    using that(1) qs that(2,3) by (rule cluster_members)
  have plain: "shapesOf clusters
        = (\<Union>q \<in> set qs. {modelId (fst q)} \<times> propResult.dbId ` set (answerOf q))"
    if build: "buildClustersFromAttribute this models attribName searchAncestors order
            = (this', Resolved clusters)" and "\<not> ?sa" for clusters
    using build_shapes [OF build qs] that(2) by (simp add: contributions_plain)
  have pairs: "set (map (createShapeId a) xs) = {a} \<times> set xs" for a and xs :: "int list"
    by (auto simp: createShapeId_def)
  have expanded: "shapesOf clusters
        = (\<Union>q \<in> set qs. {modelId (fst q)}
             \<times> (\<Union>item \<in> set (answerOf q). set (visibleChildren (fst q) (propResult.dbId item))))"
    if build: "buildClustersFromAttribute this models attribName searchAncestors order
            = (this', Resolved clusters)" and "?sa" for clusters
  proof -
    have "contributions True qs
        = (\<Union>q \<in> set qs. \<Union>item \<in> set (answerOf q).
             {modelId (fst q)} \<times> set (visibleChildren (fst q) (propResult.dbId item)))"
      by (simp only: contributions_def contribution_def if_True pairs)
    also have "\<dots> = (\<Union>q \<in> set qs. {modelId (fst q)}
             \<times> (\<Union>item \<in> set (answerOf q). set (visibleChildren (fst q) (propResult.dbId item))))"
      by blast
    finally show ?thesis using build_shapes [OF build qs] that(2) by simp
  qed
  have second: "(\<forall>c \<in> set clusters. \<exists>q \<in> set qs. \<exists>item \<in> set (answerOf q).
                   categoryOf item = Some (name c))
            \<and> (\<forall>c \<in> set clusters. \<forall>sid \<in> set (shapeIds c).
                   \<exists>q \<in> set qs. \<exists>item \<in> set (answerOf q).
                     categoryKey item = Some (jsToString (name c))
                     \<and> sid \<in> set (contribution ?sa (fst q) item))
            \<and> (?sa
                 \<longrightarrow> shapesOf clusters
                      = (\<Union>q \<in> set qs. {modelId (fst q)}
                           \<times> (\<Union>item \<in> set (answerOf q).
                                 set (visibleChildren (fst q) (propResult.dbId item)))))
            \<and> (\<not> ?sa
                 \<longrightarrow> shapesOf clusters
                      = (\<Union>q \<in> set qs. {modelId (fst q)} \<times> propResult.dbId ` set (answerOf q)))"
    if b: "buildClustersFromAttribute this models attribName searchAncestors order
            = (this', Resolved clusters)" for clusters
  proof (intro conjI ballI impI)
    fix c assume "c \<in> set clusters"
    with b show "\<exists>q \<in> set qs. \<exists>item \<in> set (answerOf q). categoryOf item = Some (name c)"
      by (rule named)
  next
    fix c sid assume "c \<in> set clusters" "sid \<in> set (shapeIds c)"
    with b show "\<exists>q \<in> set qs. \<exists>item \<in> set (answerOf q).
                     categoryKey item = Some (jsToString (name c))
                     \<and> sid \<in> set (contribution ?sa (fst q) item)"
      by (rule members)
  next
    assume "?sa"
    with b show "shapesOf clusters
        = (\<Union>q \<in> set qs. {modelId (fst q)}
             \<times> (\<Union>item \<in> set (answerOf q). set (visibleChildren (fst q) (propResult.dbId item))))"
      by (rule expanded)
  next
    assume "\<not> ?sa"
    with b show "shapesOf clusters
        = (\<Union>q \<in> set qs. {modelId (fst q)} \<times> propResult.dbId ` set (answerOf q))"
      by (rule plain)
  qed
  have first: "list_all (answerable ?sa) qs \<and> list_all (\<lambda>i. i \<in> set order) [0 ..< length qs]
          \<longrightarrow> (\<exists>clusters. buildClustersFromAttribute this models attribName searchAncestors order
                  = (this', Resolved clusters))"
    using total by simp
  from second have rest: "\<forall>clusters. buildClustersFromAttribute this models attribName searchAncestors order
            = (this', Resolved clusters)
          \<longrightarrow> (\<forall>c \<in> set clusters. \<exists>q \<in> set qs. \<exists>item \<in> set (answerOf q).
                   categoryOf item = Some (name c))
            \<and> (\<forall>c \<in> set clusters. \<forall>sid \<in> set (shapeIds c).
                   \<exists>q \<in> set qs. \<exists>item \<in> set (answerOf q).
                     categoryKey item = Some (jsToString (name c))
                     \<and> sid \<in> set (contribution ?sa (fst q) item))
            \<and> (?sa
                 \<longrightarrow> shapesOf clusters
                      = (\<Union>q \<in> set qs. {modelId (fst q)}
                           \<times> (\<Union>item \<in> set (answerOf q).
                                 set (visibleChildren (fst q) (propResult.dbId item)))))
            \<and> (\<not> ?sa
                 \<longrightarrow> shapesOf clusters
                      = (\<Union>q \<in> set qs. {modelId (fst q)} \<times> propResult.dbId ` set (answerOf q)))"
    by (intro allI impI)
  from first rest show ?thesis by (rule conjI)
qed

text \<open>
  The assembly clustered by \<open>Material\<close> with the default expansion: leaf 12 is asked and
  not answered, and is filed in the cluster \<open>Brick\<close> of its ancestor 10. The house
  clustered by \<open>Material\<close> without expansion: the room is in no cluster. No other
  cluster is created in either build.
\<close>

theorem missing_attribute_not_grouped:
  "findActualLeafNodes newBase nestedScene True True = (nestedLeaves, Inr [Num 10, Num 12])
   \<and> getBulkProperties2 nestedScene [Num 10, Num 12] ''Material''
       = Some [entry 10 ''Element'' [(''Material'', Str ''Brick'')]]
   \<and> buildClustersFromAttribute newBase [nestedScene] (Some ''Material'') None [0]
       = (nestedLeaves, Resolved [\<lparr>name = Str ''Brick'', shapeIds = [(1, 11), (1, 12)]\<rparr>])
   \<and> findActualLeafNodes newBase houseScene True True = (houseLeaves, Inr [Num 2, Num 3])
   \<and> getBulkProperties2 houseScene [Num 2, Num 3] ''Material''
       = Some [entry 2 ''Element'' [(''Material'', Str ''Brick'')]]
   \<and> buildClustersFromAttribute newBase [houseScene] (Some ''Material'') (Some False) [0]
       = (houseLeaves, Resolved [\<lparr>name = Str ''Brick'', shapeIds = [(1, 2)]\<rparr>])
   \<and> (1, 3) \<notin> shapesOf [\<lparr>name = Str ''Brick'', shapeIds = [(1, 2)]\<rparr>]"
proof -
  have a: "getBulkProperties2 nestedScene [Num 10, Num 12] ''Material''
       = Some [entry 10 ''Element'' [(''Material'', Str ''Brick'')]]"
    by (simp add: nestedScene_def List.map_filter_simps)
  have h: "findActualLeafNodes newBase houseScene True True = (houseLeaves, Inr [Num 2, Num 3])"
    by (simp add: scene_defs houseScene_def houseLeaves_def)
  have b: "getBulkProperties2 houseScene [Num 2, Num 3] ''Material''
       = Some [entry 2 ''Element'' [(''Material'', Str ''Brick'')]]"
    by (simp add: houseScene_def flatScene_def List.map_filter_simps)
  have c: "(1, 3) \<notin> shapesOf [\<lparr>name = Str ''Brick'', shapeIds = [(1, 2)]\<rparr>]"
    by (simp add: shapesOf_def)
  show ?thesis
    by (intro conjI) (rule nested_leaves a nested_material h b house_material c)+
qed

text \<open>The same two builds, as instances of the theorem.\<close>

theorem build_without_uncategorized_witness:
  "issueQueries newBase [nestedScene] (attribOf (Some ''Material''))
     = (nestedLeaves,
        Inr [(nestedScene, [Num 10, Num 12],
              Some [entry 10 ''Element'' [(''Material'', Str ''Brick'')]])])
   \<and> list_all (answerable (expandOf None))
        [(nestedScene, [Num 10, Num 12], Some [entry 10 ''Element'' [(''Material'', Str ''Brick'')]])]
   \<and> list_all (\<lambda>i. i \<in> set [0::nat]) [0 ..< length [nestedScene]]
   \<and> buildClustersFromAttribute newBase [nestedScene] (Some ''Material'') None [0]
       = (nestedLeaves, Resolved [\<lparr>name = Str ''Brick'', shapeIds = [(1, 11), (1, 12)]\<rparr>])
   \<and> categoryOf (entry 10 ''Element'' [(''Material'', Str ''Brick'')]) = Some (Str ''Brick'')
   \<and> visibleChildren nestedScene 10 = [11, 12]
   \<and> shapesOf [\<lparr>name = Str ''Brick'', shapeIds = [(1, 11), (1, 12)]\<rparr>] = {(1, 11), (1, 12)}
   \<and> issueQueries newBase [houseScene] (attribOf (Some ''Material''))
     = (houseLeaves,
        Inr [(houseScene, [Num 2, Num 3],
              Some [entry 2 ''Element'' [(''Material'', Str ''Brick'')]])])
   \<and> buildClustersFromAttribute newBase [houseScene] (Some ''Material'') (Some False) [0]
       = (houseLeaves, Resolved [\<lparr>name = Str ''Brick'', shapeIds = [(1, 2)]\<rparr>])
   \<and> shapesOf [\<lparr>name = Str ''Brick'', shapeIds = [(1, 2)]\<rparr>] = {(1, 2)}"
proof -
  let ?qs = "[(nestedScene, [Num 10, Num 12],
               Some [entry 10 ''Element'' [(''Material'', Str ''Brick'')]])]"
  let ?cs = "[\<lparr>name = Str ''Brick'', shapeIds = [(1, 11), (1, 12)]\<rparr>]"
  let ?hqs = "[(houseScene, [Num 2, Num 3],
               Some [entry 2 ''Element'' [(''Material'', Str ''Brick'')]])]"
  let ?hcs = "[\<lparr>name = Str ''Brick'', shapeIds = [(1, 2)]\<rparr>]"
  have h1: "list_all (answerable (expandOf None)) ?qs"
    by (simp add: answerable_def answerOf_def wellKeyed_def categoryKey_def entry_def
        expandOf_def objectPrototypeKeys_def nestedScene_def)
  have h2: "list_all (\<lambda>i. i \<in> set [0::nat]) [0 ..< length [nestedScene]]"
    by simp
  have ex: "expandOf None" by (simp add: expandOf_def)
  have pl: "\<not> expandOf (Some False)" by (simp add: expandOf_def)
  have cat: "categoryOf (entry 10 ''Element'' [(''Material'', Str ''Brick'')]) = Some (Str ''Brick'')"
    by (simp add: categoryOf_def entry_def)
  have vis: "visibleChildren nestedScene 10 = [11, 12]"
    by (simp add: visibleChildren_def hasVisibleFragments_def nestedScene_def nestedTree_def)
  note t = build_without_uncategorized [OF nested_issue_material, of None "[0]"]
  have h2': "list_all (\<lambda>i. i \<in> set [0::nat]) [0 ..< length ?qs]"
    by simp
  have "\<exists>clusters. buildClustersFromAttribute newBase [nestedScene] (Some ''Material'') None [0]
       = (nestedLeaves, Resolved clusters)"
    by (rule t [THEN conjunct1, THEN mp]) (rule conjI [OF h1 h2'])
  note r = t [THEN conjunct2, rule_format, OF nested_material]
  have s: "shapesOf ?cs = (\<Union>q \<in> set ?qs. {modelId (fst q)}
             \<times> (\<Union>item \<in> set (answerOf q). set (visibleChildren (fst q) (propResult.dbId item))))"
    by (rule r [THEN conjunct2, THEN conjunct2, THEN conjunct1, THEN mp, OF ex])
  have s': "shapesOf ?cs = {(1, 11), (1, 12)}"
    unfolding s by (simp add: answerOf_def vis entry_def) (auto simp: nestedScene_def)
  note u = build_without_uncategorized [OF house_issue_material, of "Some False" "[0]"]
  note v = u [THEN conjunct2, rule_format, OF house_material]
  have p: "shapesOf ?hcs = (\<Union>q \<in> set ?hqs. {modelId (fst q)} \<times> propResult.dbId ` set (answerOf q))"
    by (rule v [THEN conjunct2, THEN conjunct2, THEN conjunct2, THEN mp, OF pl])
  have p': "shapesOf ?hcs = {(1, 2)}"
    unfolding p by (simp add: answerOf_def entry_def houseScene_def flatScene_def)
  show ?thesis
    by (intro conjI)
       (rule nested_issue_material h1 h2 nested_material cat vis s' house_issue_material
          house_material p')+
qed

section \<open>The run counter and stale results\<close>

lemma applyLayout_finish_stamp:
  "layoutTimeStamp (applyLayout_finish css k l this) = layoutTimeStamp this"
  by (simp add: applyLayout_finish_def Let_def)

lemma applyLayout_finish_active:
  "layoutActive (applyLayout_finish css k l this) = layoutActive this"
  by (simp add: applyLayout_finish_def Let_def)

lemma applyLayout_start_stamp:
  "applyLayout_start css ms this = (this', k) \<Longrightarrow> layoutTimeStamp this' = layoutTimeStamp this + 1"
  by (auto simp: applyLayout_start_def Let_def applyLayout_finish_stamp split: option.splits)

lemma applyLayout_start_suspended:
  "applyLayout_start css ms this = (this', Some k) \<Longrightarrow> fst k = layoutTimeStamp this'"
  by (auto simp: applyLayout_start_def Let_def split: option.splits)

lemma applyLayout_resume_stamp:
  "layoutTimeStamp (applyLayout_resume css k r this) = layoutTimeStamp this"
  by (simp add: applyLayout_resume_def applyLayout_finish_stamp split: sum.splits)

lemma setLayoutActive_stamp:
  "setLayoutActive css v ms this = (this', k) \<Longrightarrow> layoutTimeStamp this \<le> layoutTimeStamp this'"
  by (auto simp: setLayoutActive_def Let_def split: if_splits dest!: applyLayout_start_stamp)

lemma step_stamp: "layoutTimeStamp (fst s) \<le> layoutTimeStamp (fst (step css ev s))"
proof (cases s)
  case (Pair this pending)
  show ?thesis
  proof (cases ev)
    case (SetLayoutActive v ms)
    then show ?thesis using Pair
      by (auto split: prod.splits dest: setLayoutActive_stamp)
  next
    case (ApplyLayout ms)
    then show ?thesis using Pair
      by (auto split: prod.splits dest: applyLayout_start_stamp)
  next
    case Reset
    then show ?thesis using Pair by (simp add: reset_def)
  next
    case (Settle i r)
    then show ?thesis using Pair by (simp add: applyLayout_resume_stamp)
  qed
qed

lemma run_stamp: "layoutTimeStamp (fst s) \<le> layoutTimeStamp (fst (run css evs s))"
proof (induction evs arbitrary: s)
  case Nil
  then show ?case by simp
next
  case (Cons ev evs)
  have "layoutTimeStamp (fst s) \<le> layoutTimeStamp (fst (step css ev s))"
    by (rule step_stamp)
  also have "\<dots> \<le> layoutTimeStamp (fst (run css evs (step css ev s)))"
    by (rule Cons.IH)
  finally show ?case by simp
qed

lemma run_append: "run css (evs1 @ evs2) s = run css evs2 (run css evs1 s)"
  by (induction evs1 arbitrary: s) simp_all

lemma stale_guard:
  "layoutTimeStamp this \<noteq> fst k \<or> \<not> layoutActive this \<Longrightarrow> applyLayout_resume css k r this = this"
  by (auto simp: applyLayout_resume_def applyLayout_finish_def split: sum.splits)

lemma step_trigger_stamp:
  assumes "ev = ApplyLayout ms \<or> (ev = SetLayoutActive True ms \<and> \<not> layoutActive (fst s))"
  shows "layoutTimeStamp (fst s) < layoutTimeStamp (fst (step css ev s))"
proof (cases s)
  case (Pair this pending)
  then show ?thesis using assms
    by (auto simp: setLayoutActive_def Let_def split: prod.splits dest!: applyLayout_start_stamp)
qed

lemma stale_after_newer_trigger:
  assumes start: "applyLayout_start css ms s0 = (s1, Some k)"
    and tr: "ev = ApplyLayout ms' \<or> (ev = SetLayoutActive True ms' \<and> \<not> layoutActive (fst (run css evs1 (s1, p))))"
    and r: "run css (evs1 @ ev # evs2) (s1, p) = (s, p')"
  shows "applyLayout_resume css k r' s = s"
proof -
  let ?a = "run css evs1 (s1, p)"
  have k: "fst k = layoutTimeStamp s1"
    using start by (rule applyLayout_start_suspended)
  have "layoutTimeStamp s1 \<le> layoutTimeStamp (fst ?a)"
    using run_stamp [of "(s1, p)" css evs1] by simp
  also have "\<dots> < layoutTimeStamp (fst (step css ev ?a))"
    using tr by (intro step_trigger_stamp [where ms = ms']) simp
  also have "\<dots> \<le> layoutTimeStamp (fst (run css evs2 (step css ev ?a)))"
    by (rule run_stamp)
  also have "run css evs2 (step css ev ?a) = (s, p')"
    using r by (simp add: run_append)
  finally have "layoutTimeStamp s \<noteq> fst k" using k by simp
  then show ?thesis by (simp add: stale_guard)
qed

text \<open>
  C1. A call of \<open>applyLayout\<close> that is suspended at its \<open>await\<close> holds the value \<open>k\<close> of the
  run counter it set. When it is resumed in a state whose counter differs from that value,
  or whose \<open>layoutActive\<close> is false, the extension is left exactly as it was: no scene
  layout and no animation state is stored and no call reaches the animation controller or
  the gizmo controller, whatever the computation resolved with. This is the case in every
  session in which, after the suspension, \<open>applyLayout\<close> was called again, directly or
  through \<open>setLayoutActive(true)\<close>: only the result of the latest call can be applied.
\<close>

theorem applyLayout_stale_result_discarded:
  assumes start: "applyLayout_start css ms s0 = (s1, Some k)"
  shows "(\<forall>s. layoutTimeStamp s \<noteq> layoutTimeStamp s1 \<or> \<not> layoutActive s
            \<longrightarrow> applyLayout_resume css k r s = s)
       \<and> (\<forall>s p p' evs1 evs2 ms'.
            run css (evs1 @ ApplyLayout ms' # evs2) (s1, p) = (s, p')
            \<longrightarrow> applyLayout_resume css k r s = s)
       \<and> (\<forall>s p p' evs1 evs2 ms'.
            \<not> layoutActive (fst (run css evs1 (s1, p)))
            \<and> run css (evs1 @ SetLayoutActive True ms' # evs2) (s1, p) = (s, p')
            \<longrightarrow> applyLayout_resume css k r s = s)"
proof -
  have k: "fst k = layoutTimeStamp s1"
    using start by (rule applyLayout_start_suspended)
  have guard: "applyLayout_resume css k r s = s"
    if "layoutTimeStamp s \<noteq> layoutTimeStamp s1 \<or> \<not> layoutActive s" for s
    using that k by (simp add: stale_guard)
  have direct: "applyLayout_resume css k r s = s"
    if "run css (evs1 @ ApplyLayout ms' # evs2) (s1, p) = (s, p')" for s p p' evs1 evs2 ms'
    using start _ that by (rule stale_after_newer_trigger) simp
  have toggled: "applyLayout_resume css k r s = s"
    if "\<not> layoutActive (fst (run css evs1 (s1, p)))"
      and "run css (evs1 @ SetLayoutActive True ms' # evs2) (s1, p) = (s, p')"
    for s p p' evs1 evs2 ms'
    using start _ that(2) by (rule stale_after_newer_trigger) (simp add: that(1))
  show ?thesis
    using guard direct toggled by blast
qed

theorem applyLayout_stale_result_discarded_witness:
  "applyLayout_start Pair 0 (constructed\<lparr>layoutActive := True\<rparr>)
     = (constructed\<lparr>layoutActive := True, layoutTimeStamp := 1\<rparr>, Some (1, 0))
   \<and> run Pair ([] @ ApplyLayout 5 # [])
        (constructed\<lparr>layoutActive := True, layoutTimeStamp := 1\<rparr>, [(1, 0)])
     = (constructed\<lparr>layoutActive := True, layoutTimeStamp := 2\<rparr>, [(1, 0), (2, 5)])
   \<and> applyLayout_resume Pair (1, 0) (Inr 7)
        (constructed\<lparr>layoutActive := True, layoutTimeStamp := 2\<rparr>)
     = constructed\<lparr>layoutActive := True, layoutTimeStamp := 2\<rparr>
   \<and> applyLayout_resume Pair (2, 5) (Inr 7)
        (constructed\<lparr>layoutActive := True, layoutTimeStamp := 2\<rparr>)
     = constructed\<lparr>layoutActive := True, layoutTimeStamp := 2, sceneLayout := Some 7,
         sceneAnimState := Some (7, 5),
         calls := [RegisterState ClusteredStateName (7, 5), OnTransitionStarted,
                   AnimateTo (Some ClusteredStateName), GizmoLayoutChanged (Some 7)]\<rparr>"
proof -
  have start: "applyLayout_start Pair 0 (constructed\<lparr>layoutActive := True\<rparr>)
      = (constructed\<lparr>layoutActive := True, layoutTimeStamp := 1\<rparr>, Some (1, 0))"
    by (simp add: applyLayout_start_def constructed_def)
  have r: "run Pair ([] @ ApplyLayout 5 # [])
        (constructed\<lparr>layoutActive := True, layoutTimeStamp := 1\<rparr>, [(1, 0)])
      = (constructed\<lparr>layoutActive := True, layoutTimeStamp := 2\<rparr>, [(1, 0), (2, 5)])"
    by (simp add: applyLayout_start_def constructed_def suspend_def)
  have a: "applyLayout_resume Pair (2, 5) (Inr 7)
        (constructed\<lparr>layoutActive := True, layoutTimeStamp := 2\<rparr>)
     = constructed\<lparr>layoutActive := True, layoutTimeStamp := 2, sceneLayout := Some 7,
         sceneAnimState := Some (7, 5),
         calls := [RegisterState ClusteredStateName (7, 5), OnTransitionStarted,
                   AnimateTo (Some ClusteredStateName), GizmoLayoutChanged (Some 7)]\<rparr>"
    by (simp add: applyLayout_resume_def applyLayout_finish_def constructed_def Let_def)
  from applyLayout_stale_result_discarded [OF start, of "Inr 7"] r
  have "applyLayout_resume Pair (1, 0) (Inr 7)
        (constructed\<lparr>layoutActive := True, layoutTimeStamp := 2\<rparr>)
     = constructed\<lparr>layoutActive := True, layoutTimeStamp := 2\<rparr>"
    by blast
  with start r a show ?thesis by blast
qed

section \<open>Toggling the layout\<close>

lemma setLayoutActive_sets:
  "setLayoutActive css v ms this = (this', k) \<Longrightarrow> layoutActive this' = v"
  by (auto simp: setLayoutActive_def Let_def applyLayout_start_def applyLayout_finish_active
      split: if_splits option.splits)

text \<open>
  C8. \<open>setLayoutActive(v)\<close> on an extension whose \<open>layoutActive\<close> already is \<open>v\<close> returns at
  once: the extension is unchanged (so no call was made on the button, the animation
  controller or the gizmo controller), and no call of \<open>applyLayout\<close> is started or
  suspended. After any call \<open>setLayoutActive(v)\<close> the flag is \<open>v\<close>, so a second call with
  the same value is such a call.
\<close>

theorem setLayoutActive_same_value_noop:
  "(layoutActive this = v \<longrightarrow>
      setLayoutActive css v models this = (this, None)
      \<and> step css (SetLayoutActive v models) (this, pending) = (this, pending))
   \<and> setLayoutActive css v models' (fst (setLayoutActive css v models this))
       = (fst (setLayoutActive css v models this), None)"
proof -
  have same: "setLayoutActive css v ms t = (t, None)" if "layoutActive t = v" for t ms
    using that by (simp add: setLayoutActive_def)
  have "layoutActive (fst (setLayoutActive css v models this)) = v"
    by (rule setLayoutActive_sets [of css v models this _ "snd (setLayoutActive css v models this)"]) simp
  then show ?thesis
    using same by (simp add: suspend_def)
qed

theorem setLayoutActive_same_value_noop_witness:
  "layoutActive constructed = False
   \<and> setLayoutActive Pair False (3::nat) constructed = (constructed, None)
   \<and> step Pair (SetLayoutActive False 3) (constructed, [(1, 0)]) = (constructed, [(1, 0)])
   \<and> setLayoutActive Pair True 4 (fst (setLayoutActive Pair True 3 constructed))
       = (fst (setLayoutActive Pair True 3 constructed), None)"
proof -
  have "layoutActive constructed = False"
    by (simp add: constructed_def)
  with setLayoutActive_same_value_noop [of constructed False Pair 3 "[(1, 0)]"]
    setLayoutActive_same_value_noop [of constructed True Pair 3 "[]" 4]
  show ?thesis by blast
qed

end
